theory Spec2Isabelle
  imports Main "HOL-Library.Char_ord" "HOL-Library.List_Lexorder"
begin

section \<open>RNTupleImporter: a shallow embedding of RNTupleImporter.cxx\<close>

text \<open>
  The importer reads the branch and leaf metadata of a TTree, derives an RNTuple schema
  from it (\<open>PrepareSchema\<close>) and copies the entries one by one (\<open>Import\<close>).
  The TTree, the field factory, the class dictionary, the page sink and the files are
  collaborators that the translation unit only calls; they appear here as data
  (\<open>TTree\<close>, \<open>TFile\<close>) or as parameters (\<open>env\<close>).

  Integers: \<open>Int_t\<close> and \<open>Long64_t\<close> values are \<open>int\<close>; \<open>std::size_t\<close> and
  \<open>std::uint64_t\<close> values are \<open>nat\<close> with the reduction modulo \<open>2 ^ 64\<close> written
  out at every conversion and operation (an LP64 platform: 64-bit \<open>size_t\<close>, 8-byte
  pointers). The contents of the buffers are not modelled, their extents are.
\<close>

subsection \<open>Results\<close>

text \<open>
  \<open>Success\<close> is \<open>RResult<void>::Success()\<close>, \<open>Failure\<close> an \<open>RResult\<close> built by
  \<open>R__FAIL\<close> or \<open>R__FORWARD_ERROR\<close>, \<open>Throws\<close> an exception leaving the function
  (\<open>Unwrap()\<close> on an error), and \<open>Undefined\<close> stands for the places where the code
  dereferences a null pointer, indexes a vector out of range or fails an \<open>assert\<close>.
\<close>

datatype status = Success | Failure string | Throws string | Undefined

subsection \<open>Integer conversions and \<open>std::to_string\<close>\<close>

definition size_t_of_int :: "int \<Rightarrow> nat" where
  "size_t_of_int x = nat (x mod 2 ^ 64)"

definition size_t_mul :: "nat \<Rightarrow> nat \<Rightarrow> nat" where
  "size_t_mul a b = (a * b) mod 2 ^ 64"

definition size_t_add :: "nat \<Rightarrow> nat \<Rightarrow> nat" where
  "size_t_add a b = (a + b) mod 2 ^ 64"

definition sizeof_ptr :: nat where
  "sizeof_ptr = 8"

definition digit_char :: "nat \<Rightarrow> char" where
  "digit_char d =
     (if d = 0 then CHR ''0'' else if d = 1 then CHR ''1'' else if d = 2 then CHR ''2''
      else if d = 3 then CHR ''3'' else if d = 4 then CHR ''4'' else if d = 5 then CHR ''5''
      else if d = 6 then CHR ''6'' else if d = 7 then CHR ''7'' else if d = 8 then CHR ''8''
      else CHR ''9'')"

fun string_of_nat :: "nat \<Rightarrow> string" where
  "string_of_nat n =
     (if n < 10 then [digit_char n] else string_of_nat (n div 10) @ [digit_char (n mod 10)])"

declare string_of_nat.simps [simp del]

definition to_string :: "int \<Rightarrow> string" where
  "to_string x = (if x < 0 then CHR ''-'' # string_of_nat (nat (- x)) else string_of_nat (nat x))"

subsection \<open>The source tree as the importer sees it\<close>

text \<open>
  \<open>lIsA\<close> is the result of \<open>l->IsA()\<close> as far as the importer compares it: with
  \<open>TLeafC::Class()\<close>, \<open>TLeafElement::Class()\<close> and \<open>TLeafObject::Class()\<close>.
  \<open>lLeafCounter\<close> and \<open>lCountval\<close> are the two results of
  \<open>l->GetLeafCounter(countval)\<close>: the name of the counter leaf returned (\<open>None\<close> for
  a null pointer) and the value stored into \<open>countval\<close>.
\<close>

datatype leaf_class = TLeafC | TLeafElement | TLeafObject | TLeafOther

record TLeaf =
  lName :: string
  lTypeName :: string
  lIsA :: leaf_class
  lIsRange :: bool
  lLeafCounter :: "string option"
  lCountval :: int
  lMaximum :: int
  lOffset :: int

record TBranch =
  bName :: string
  bClassName :: string
  bLeaves :: "TLeaf list"

text \<open>
  \<open>tCountValue i b\<close> is the \<open>Int_t\<close> that \<open>GetEntry(i)\<close> stores at the address
  registered for branch \<open>b\<close>.
\<close>

record TTree =
  tName :: string
  tBranches :: "TBranch list"
  tEntries :: int
  tCountValue :: "int \<Rightarrow> string \<Rightarrow> int"

record TFile =
  IsZombie :: bool
  fKeys :: "string list"
  fTrees :: "(string \<times> TTree) list"

definition FindKey :: "TFile \<Rightarrow> string \<Rightarrow> bool" where
  "FindKey f name = (name \<in> set (fKeys f))"

definition GetNleaves :: "TBranch \<Rightarrow> nat" where
  "GetNleaves b = length (bLeaves b)"

subsection \<open>Fields, buffers and the importer's tables\<close>

record RField =
  fldName :: string
  fldType :: string
  fldValueSize :: nat

text \<open>
  Where a \<open>void *\<close> points: nowhere, to a value generated for the field
  (\<open>GenerateValue().GetRawPtr()\<close>), to the read buffer of import branch \<open>i\<close>, to the
  object whose address the tree stored in that read buffer, or to the offset counter of
  the collection writer of a leaf count collection.
\<close>

datatype buffer = Null | Owned | BranchBuffer nat | Pointee nat | OffsetPtr string

record RImportBranch =
  fBranchName :: string
  fBranchBuffer :: nat

record RImportField =
  fField :: "RField option"
  fFieldBuffer :: buffer
  fOwnsFieldBuffer :: bool
  fIsInUntypedCollection :: bool
  fIsClass :: bool

definition RImportField0 :: RImportField where
  "RImportField0 = \<lparr>fField = None, fFieldBuffer = Null, fOwnsFieldBuffer = False,
     fIsInUntypedCollection = False, fIsClass = False\<rparr>"

text \<open>
  A transformation carries the indexes of its import branch and import field; the array
  transformation also its element counter \<open>fNum\<close>.
\<close>

datatype RImportTransformation =
    RCStringTransformation nat nat
  | RLeafArrayTransformation nat nat nat

fun fImportBranchIdx :: "RImportTransformation \<Rightarrow> nat" where
  "fImportBranchIdx (RCStringTransformation b f) = b"
| "fImportBranchIdx (RLeafArrayTransformation b f n) = b"

fun fImportFieldIdx :: "RImportTransformation \<Rightarrow> nat" where
  "fImportFieldIdx (RCStringTransformation b f) = f"
| "fImportFieldIdx (RLeafArrayTransformation b f n) = f"

text \<open>
  Modelled from the spec: \<open>ResetEntry\<close> is declared in the header, which is not part of
  the translation unit. The element counter of an array transformation is reset once per
  record; for a string transformation the reset is a no-op.
\<close>

fun ResetEntry :: "RImportTransformation \<Rightarrow> RImportTransformation" where
  "ResetEntry (RCStringTransformation b f) = RCStringTransformation b f"
| "ResetEntry (RLeafArrayTransformation b f n) = RLeafArrayTransformation b f 0"

text \<open>
  A bare model: its fields, its collections (name and sub-fields) and its projected
  fields, each with the two paths its mapping function returns (for the field itself and
  for a member below it).
\<close>

record RNTupleModel =
  mFields :: "RField list"
  mCollections :: "(string \<times> RField list) list"
  mProjected :: "(RField \<times> string \<times> string) list"
  mFrozen :: bool

definition CreateBare :: RNTupleModel where
  "CreateBare = \<lparr>mFields = [], mCollections = [], mProjected = [], mFrozen = False\<rparr>"

type_synonym REntry = "(string \<times> buffer) list"

text \<open>
  \<open>fCountVal\<close> is the \<open>Int_t\<close> the count leaf is read into, represented by the name of
  the branch whose address it is registered for (\<open>None\<close>: a null pointer).
  \<open>fCollectionWriter\<close> is represented by its offset counter, the number of \<open>Fill\<close>
  calls it has received.
\<close>

record RImportLeafCountCollection =
  fCollectionModel :: "RNTupleModel option"
  fCollectionWriter :: "nat option"
  fCollectionEntry :: "REntry option"
  fCountVal :: "string option"
  fImportFieldIndexes :: "nat list"
  fTransformations :: "RImportTransformation list"
  fMaxLength :: int
  fFieldName :: string

definition RImportLeafCountCollection0 :: RImportLeafCountCollection where
  "RImportLeafCountCollection0 = \<lparr>fCollectionModel = None, fCollectionWriter = None,
     fCollectionEntry = None, fCountVal = None, fImportFieldIndexes = [],
     fTransformations = [], fMaxLength = 0, fFieldName = []\<rparr>"

subsection \<open>\<open>std::map<std::string, RImportLeafCountCollection>\<close>\<close>

text \<open>
  The map is an association list kept in key order, the order in which the code iterates
  over it. \<open>emplace\<close> leaves an existing key alone; \<open>operator[]\<close> inserts a
  default-constructed element for a missing key.
\<close>

type_synonym collections = "(string \<times> RImportLeafCountCollection) list"

fun insert_in_order :: "string \<Rightarrow> 'v \<Rightarrow> (string \<times> 'v) list \<Rightarrow> (string \<times> 'v) list" where
  "insert_in_order k v [] = [(k, v)]"
| "insert_in_order k v ((k', v') # m) =
     (if k < k' then (k, v) # (k', v') # m else (k', v') # insert_in_order k v m)"

definition emplace :: "string \<Rightarrow> 'v \<Rightarrow> (string \<times> 'v) list \<Rightarrow> (string \<times> 'v) list" where
  "emplace k v m = (case map_of m k of Some v' \<Rightarrow> m | None \<Rightarrow> insert_in_order k v m)"

fun assign :: "string \<Rightarrow> 'v \<Rightarrow> (string \<times> 'v) list \<Rightarrow> (string \<times> 'v) list" where
  "assign k v [] = []"
| "assign k v ((k', v') # m) = (if k = k' then (k', v) # m else (k', v') # assign k v m)"

definition subscript :: "collections \<Rightarrow> string \<Rightarrow> RImportLeafCountCollection \<times> collections" where
  "subscript m k =
     (case map_of m k of
        Some c \<Rightarrow> (c, m)
      | None \<Rightarrow> (RImportLeafCountCollection0, emplace k RImportLeafCountCollection0 m))"

subsection \<open>The importer\<close>

text \<open>
  \<open>fProgressCallback\<close> is either null or an \<open>RDefaultProgressCallback\<close>, represented by
  its \<open>fNbytesNext\<close>.
\<close>

record RNTupleImporter =
  fNTupleName :: string
  fDestFileName :: string
  fSourceFile :: "TFile option"
  fSourceTree :: "TTree option"
  fDestFile :: "TFile option"
  fIsQuiet :: bool
  fMaxEntries :: int
  fImportBranches :: "RImportBranch list"
  fImportFields :: "RImportField list"
  fLeafCountCollections :: collections
  fImportTransformations :: "RImportTransformation list"
  fModel :: "RNTupleModel option"
  fEntry :: "REntry option"
  fProgressCallback :: "nat option"

text \<open>
  The collaborators the translation unit calls. \<open>Create_field\<close> is
  \<open>Detail::RFieldBase::Create\<close> (an error message or the field), \<open>RRecordField_new\<close>
  the constructor of \<open>RRecordField\<close>, \<open>GetClass\<close> tells whether \<open>TClass::GetClass\<close>
  finds the class, \<open>TFile_Open\<close> is \<open>TFile::Open\<close> with the file name and the option
  string, and \<open>szWritePayload n\<close> is the value of the sink's counter of the same name
  after \<open>n\<close> entries have been filled.

  \<open>unchecked_throws\<close> is the one property of \<open>RResult\<close> (declared in RError.hxx, not
  part of the translation unit) that the control flow depends on: what happens when an
  \<open>RResult\<close> holding an error is destroyed without having been checked. Either nothing
  happens and the error is lost (\<open>False\<close>), or its destructor throws the error as an
  exception (\<open>True\<close>).
\<close>

record env =
  Create_field :: "string \<Rightarrow> string \<Rightarrow> string + RField"
  RRecordField_new :: "string \<Rightarrow> RField list \<Rightarrow> RField"
  GetClass :: "string \<Rightarrow> bool"
  TFile_Open :: "string \<Rightarrow> string \<Rightarrow> TFile option"
  szWritePayload :: "nat \<Rightarrow> int"
  unchecked_throws :: bool

text \<open>
  What the importer does to the outside, in the order in which it does it: the lines it
  prints, the sink and writer it opens on the destination file, the entries it reads,
  the bytes its transformations read from the branch buffers (branch index, field
  index, byte offset, byte count), the records it fills and the progress hooks it calls.
  \<open>EvFill\<close> carries the values of the collection offset counters captured in the entry.
\<close>

datatype event =
    EvReportSchema string string
  | EvOpenWriter string
  | EvGetEntry int
  | EvReadArrayElement nat nat nat nat
  | EvReadCString nat nat
  | EvCollectionFill string
  | EvFill "(string \<times> nat) list"
  | EvCall nat nat
  | EvPrintWrote nat nat
  | EvFinish nat nat
  | EvPrintDone nat nat
  | EvCloseWriter

text \<open>
  The statement \<open>f();\<close> for an \<open>f\<close> that returns an \<open>RResult\<close>: the result is a
  temporary that nobody checks.
\<close>

definition discard :: "env \<Rightarrow> status \<Rightarrow> status" where
  "discard e r =
     (case r of
        Failure msg \<Rightarrow> if unchecked_throws e then Throws msg else Success
      | _ \<Rightarrow> r)"

subsection \<open>\<open>Create\<close> and \<open>SetupDestination\<close>\<close>

text \<open>
  Modelled from the spec: the members of a freshly constructed importer have their
  defaults in the header, which is not part of the translation unit. The maximum-record
  limit is absent (negative, unbounded) and the importer is not quiet.
\<close>

definition RNTupleImporter0 :: RNTupleImporter where
  "RNTupleImporter0 = \<lparr>fNTupleName = [], fDestFileName = [], fSourceFile = None,
     fSourceTree = None, fDestFile = None, fIsQuiet = False, fMaxEntries = - 1,
     fImportBranches = [], fImportFields = [], fLeafCountCollections = [],
     fImportTransformations = [], fModel = None, fEntry = None, fProgressCallback = None\<rparr>"

definition SetupDestination :: "env \<Rightarrow> string \<Rightarrow> RNTupleImporter \<Rightarrow> status \<times> RNTupleImporter" where
  "SetupDestination e destFileName imp =
     (let imp1 = imp\<lparr>fDestFileName := destFileName\<rparr>;
          imp2 = imp1\<lparr>fDestFile := TFile_Open e (fDestFileName imp1) ''UPDATE''\<rparr>
      in case fDestFile imp2 of
           None \<Rightarrow> (Failure (''cannot open dest file '' @ fDestFileName imp2), imp2)
         | Some f \<Rightarrow>
             if IsZombie f then (Failure (''cannot open dest file '' @ fDestFileName imp2), imp2)
             else (Success, imp2))"

text \<open>
  \<open>Create\<close> returns an \<open>RResult<std::unique_ptr<RNTupleImporter>>\<close>: the status and,
  on success, the importer.
\<close>

definition Create_tail :: "env \<Rightarrow> string \<Rightarrow> RNTupleImporter \<Rightarrow> status \<times> RNTupleImporter option" where
  "Create_tail e destFileName importer =
     (case SetupDestination e destFileName importer of
        (r, importer') \<Rightarrow>
          (case discard e r of
             Success \<Rightarrow> (Success, Some importer')
           | s \<Rightarrow> (s, None)))"



subsection \<open>\<open>PrepareSchema\<close>: classification of a branch\<close>

definition ResetSchema :: "RNTupleImporter \<Rightarrow> RNTupleImporter" where
  "ResetSchema imp = imp\<lparr>fImportBranches := [], fImportFields := [],
     fLeafCountCollections := [], fImportTransformations := [],
     fModel := Some CreateBare, fEntry := None\<rparr>"

definition isLeafList :: "TBranch \<Rightarrow> bool" where
  "isLeafList b = (GetNleaves b > 1)"

definition isCountLeaf :: "TLeaf \<Rightarrow> bool" where
  "isCountLeaf firstLeaf = lIsRange firstLeaf"

definition isClass :: "TLeaf \<Rightarrow> bool" where
  "isClass firstLeaf = (lIsA firstLeaf = TLeafElement)"

definition isCString :: "TBranch \<Rightarrow> TLeaf \<Rightarrow> bool" where
  "isCString b firstLeaf =
     (\<not> isLeafList b \<and> lIsA firstLeaf = TLeafC \<and>
      lLeafCounter firstLeaf = None \<and> lCountval firstLeaf = 1)"

definition isFixedSizeArray :: "TLeaf \<Rightarrow> bool" where
  "isFixedSizeArray l = (lLeafCounter l = None \<and> lCountval l > 1)"

subsection \<open>\<open>PrepareSchema\<close>: the field of a leaf\<close>

definition leafFieldName :: "TBranch \<Rightarrow> TLeaf \<Rightarrow> string" where
  "leafFieldName b l = (if isLeafList b then lName l else bName b)"

definition leafFieldType :: "TBranch \<Rightarrow> bool \<Rightarrow> bool \<Rightarrow> TLeaf \<Rightarrow> string" where
  "leafFieldType b isCStr isCls l =
     (let fieldType = lTypeName l;
          fieldType = (if isCStr then ''std::string'' else fieldType);
          fieldType = (if isCls then bClassName b else fieldType);
          fieldType = (if isFixedSizeArray l
                       then ''std::array<'' @ fieldType @ '','' @ to_string (lCountval l) @ ''>''
                       else fieldType)
      in fieldType)"

subsection \<open>\<open>PrepareSchema\<close>: the size of the branch buffer\<close>

text \<open>
  The value assigned to \<open>branchBufferSize\<close> when leaf \<open>l\<close> is processed, and the map
  after the \<open>operator[]\<close> of the leaf count case. The leaf is a leaf count array
  (\<open>isLeafCountArray\<close>) when \<open>GetLeafCounter\<close> returns a leaf.
\<close>

definition leafBranchBufferSize ::
  "collections \<Rightarrow> bool \<Rightarrow> bool \<Rightarrow> TLeaf \<Rightarrow> RField \<Rightarrow> nat \<times> collections" where
  "leafBranchBufferSize colls isCStr isCls l field =
     (if isCStr then (size_t_of_int (lMaximum l), colls)
      else if isCls then (size_t_mul sizeof_ptr (size_t_of_int (lCountval l)), colls)
      else
        (case lLeafCounter l of
           Some countleaf \<Rightarrow>
             (case subscript colls countleaf of
                (c, colls') \<Rightarrow>
                  (size_t_mul (size_t_of_int (fMaxLength c)) (fldValueSize field), colls'))
         | None \<Rightarrow> (size_t_add (size_t_of_int (lOffset l)) (fldValueSize field), colls)))"

subsection \<open>\<open>PrepareSchema\<close>: one leaf\<close>

text \<open>
  The body of the loop over the leaves of a branch. Its local state is
  \<open>branchBufferSize\<close> and \<open>recordItems\<close>, beside the importer.
\<close>

type_synonym leaf_state = "nat \<times> RField list \<times> RNTupleImporter"

definition AddField :: "RField \<Rightarrow> RNTupleModel \<Rightarrow> RNTupleModel" where
  "AddField field m = m\<lparr>mFields := mFields m @ [field]\<rparr>"

definition add_to_collection ::
  "string \<Rightarrow> RField \<Rightarrow> RImportField \<Rightarrow> RNTupleImporter \<Rightarrow> status \<times> RNTupleImporter" where
  "add_to_collection countleafName field f imp =
     (let f1 = f\<lparr>fFieldBuffer := Owned, fOwnsFieldBuffer := True, fIsInUntypedCollection := True\<rparr>
      in case subscript (fLeafCountCollections imp) countleafName of
           (c, colls) \<Rightarrow>
             (case fCollectionModel c of
                None \<Rightarrow> (Undefined, imp\<lparr>fLeafCountCollections := colls\<rparr>)
              | Some cm \<Rightarrow>
                  (let c1 = c\<lparr>fCollectionModel := Some (AddField field cm)\<rparr>;
                       c2 = c1\<lparr>fImportFieldIndexes :=
                                fImportFieldIndexes c1 @ [length (fImportFields imp)]\<rparr>;
                       c3 = c2\<lparr>fTransformations := fTransformations c2 @
                                [RLeafArrayTransformation (length (fImportBranches imp))
                                   (length (fImportFields imp)) 0]\<rparr>
                   in (Success, imp\<lparr>fLeafCountCollections := assign countleafName c3 colls,
                                   fImportFields := fImportFields imp @ [f1]\<rparr>))))"

definition process_leaf ::
  "env \<Rightarrow> TBranch \<Rightarrow> bool \<Rightarrow> bool \<Rightarrow> leaf_state \<Rightarrow> TLeaf \<Rightarrow> status \<times> leaf_state" where
  "process_leaf e b isCStr isCls st l =
     (case st of (branchBufferSize, recordItems, imp) \<Rightarrow>
      if lIsA l = TLeafObject
      then (Failure (''unsupported: TObject branches, branch: '' @ bName b), st)
      else
        (case Create_field e (leafFieldName b l) (leafFieldType b isCStr isCls l) of
           Inl msg \<Rightarrow> (Failure msg, st)
         | Inr field \<Rightarrow>
             (let f = RImportField0\<lparr>fIsClass := isCls\<rparr>;
                  (bufferSize, colls) = leafBranchBufferSize (fLeafCountCollections imp) isCStr isCls l field;
                  f1 = (if isCStr then f\<lparr>fFieldBuffer := Owned, fOwnsFieldBuffer := True\<rparr> else f);
                  imp1 = (if isCStr
                          then imp\<lparr>fImportTransformations := fImportTransformations imp @
                                 [RCStringTransformation (length (fImportBranches imp))
                                    (length (fImportFields imp))]\<rparr>
                          else imp\<lparr>fLeafCountCollections := colls\<rparr>);
                  f2 = f1\<lparr>fField := Some field\<rparr>
              in if isLeafList b then (Success, (bufferSize, recordItems @ [field], imp1))
                 else
                   (case lLeafCounter l of
                      Some countleafName \<Rightarrow>
                        (case add_to_collection countleafName field f2 imp1 of
                           (s, imp2) \<Rightarrow> (s, (bufferSize, recordItems, imp2)))
                    | None \<Rightarrow>
                        (case fModel imp1 of
                           None \<Rightarrow> (Undefined, (bufferSize, recordItems, imp1))
                         | Some m \<Rightarrow>
                             (Success, (bufferSize, recordItems,
                                imp1\<lparr>fModel := Some (AddField field m),
                                     fImportFields := fImportFields imp1 @ [f2]\<rparr>)))))))"

fun leaf_loop ::
  "env \<Rightarrow> TBranch \<Rightarrow> bool \<Rightarrow> bool \<Rightarrow> TLeaf list \<Rightarrow> leaf_state \<Rightarrow> status \<times> leaf_state" where
  "leaf_loop e b isCStr isCls [] st = (Success, st)"
| "leaf_loop e b isCStr isCls (l # ls) st =
     (case process_leaf e b isCStr isCls st l of
        (Success, st') \<Rightarrow> leaf_loop e b isCStr isCls ls st'
      | r \<Rightarrow> r)"

subsection \<open>\<open>PrepareSchema\<close>: one branch\<close>

definition add_record_field :: "env \<Rightarrow> TBranch \<Rightarrow> RField list \<Rightarrow> RNTupleImporter \<Rightarrow> status \<times> RNTupleImporter" where
  "add_record_field e b recordItems imp =
     (if recordItems = [] then (Success, imp)
      else
        (let recordField = RRecordField_new e (bName b) recordItems;
             f = RImportField0\<lparr>fField := Some recordField\<rparr>;
             imp1 = imp\<lparr>fImportFields := fImportFields imp @ [f]\<rparr>
         in case fModel imp1 of
              None \<Rightarrow> (Undefined, imp1)
            | Some m \<Rightarrow> (Success, imp1\<lparr>fModel := Some (AddField recordField m)\<rparr>)))"

text \<open>
  The end of the loop body: the import branch and its buffer, the class lookup, the
  aliasing of the last import field's buffer to the branch buffer.
\<close>

definition finish_branch :: "env \<Rightarrow> TBranch \<Rightarrow> bool \<Rightarrow> nat \<Rightarrow> RNTupleImporter \<Rightarrow> status \<times> RNTupleImporter" where
  "finish_branch e b isCls branchBufferSize imp =
     (let ib = \<lparr>fBranchName = bName b, fBranchBuffer = branchBufferSize\<rparr>
      in if isCls \<and> \<not> GetClass e (bClassName b)
         then (Failure (''unable to load class '' @ bClassName b @ '' for branch '' @ bName b), imp)
         else if fImportFields imp = [] then (Undefined, imp)
         else
           (let back = last (fImportFields imp);
                back1 = (if fFieldBuffer back = Null
                         then back\<lparr>fFieldBuffer :=
                                (if isCls then Pointee (length (fImportBranches imp))
                                 else BranchBuffer (length (fImportBranches imp)))\<rparr>
                         else back)
            in (Success, imp\<lparr>fImportFields := butlast (fImportFields imp) @ [back1],
                            fImportBranches := fImportBranches imp @ [ib]\<rparr>)))"

definition process_branch :: "env \<Rightarrow> RNTupleImporter \<Rightarrow> TBranch \<Rightarrow> status \<times> RNTupleImporter" where
  "process_branch e imp b =
     (case bLeaves b of
        [] \<Rightarrow> (Undefined, imp)
      | firstLeaf # rest \<Rightarrow>
          if isLeafList b \<and> isClass firstLeaf
          then (Failure (''unsupported: classes in leaf list, branch '' @ bName b), imp)
          else if isLeafList b \<and> isCountLeaf firstLeaf
          then (Failure (''unsupported: count leaf arrays in leaf list, branch '' @ bName b), imp)
          else if isCountLeaf firstLeaf
          then
            (let c = RImportLeafCountCollection0\<lparr>fCollectionModel := Some CreateBare\<rparr>;
                 c1 = c\<lparr>fMaxLength := lMaximum firstLeaf\<rparr>;
                 c2 = c1\<lparr>fCountVal := Some (bName b)\<rparr>
             in (Success, imp\<lparr>fLeafCountCollections :=
                                emplace (lName firstLeaf) c2 (fLeafCountCollections imp)\<rparr>))
          else
            (case leaf_loop e b (isCString b firstLeaf) (isClass firstLeaf) (bLeaves b) (0, [], imp) of
               (Success, (branchBufferSize, recordItems, imp1)) \<Rightarrow>
                 (case add_record_field e b recordItems imp1 of
                    (Success, imp2) \<Rightarrow> finish_branch e b (isClass firstLeaf) branchBufferSize imp2
                  | r \<Rightarrow> r)
             | (s, (branchBufferSize, recordItems, imp1)) \<Rightarrow> (s, imp1)))"

fun branch_loop :: "env \<Rightarrow> TBranch list \<Rightarrow> RNTupleImporter \<Rightarrow> status \<times> RNTupleImporter" where
  "branch_loop e [] imp = (Success, imp)"
| "branch_loop e (b # bs) imp =
     (case process_branch e imp b of
        (Success, imp') \<Rightarrow> branch_loop e bs imp'
      | r \<Rightarrow> r)"

subsection \<open>\<open>PrepareSchema\<close>: the leaf count collections\<close>

text \<open>
  \<open>capture_fields\<close> is the loop that captures the value buffers of the collection's
  import fields in its entry; a field index out of range or a null \<open>fField\<close> is
  undefined behaviour (\<open>None\<close>).
\<close>

fun capture_fields :: "RImportField list \<Rightarrow> nat list \<Rightarrow> REntry option" where
  "capture_fields fs [] = Some []"
| "capture_fields fs (idx # idxs) =
     (if idx < length fs then
        (case fField (fs ! idx) of
           None \<Rightarrow> None
         | Some fld \<Rightarrow>
             (case capture_fields fs idxs of
                None \<Rightarrow> None
              | Some en \<Rightarrow> Some ((fldName fld, fFieldBuffer (fs ! idx)) # en)))
      else None)"

text \<open>
  The projected fields of the leaf count arrays of one collection. \<open>Unwrap()\<close> throws
  when the factory returns an error.
\<close>

fun add_projected ::
  "env \<Rightarrow> RImportField list \<Rightarrow> string \<Rightarrow> nat list \<Rightarrow> RNTupleModel \<Rightarrow> status \<times> RNTupleModel" where
  "add_projected e fs collName [] m = (Success, m)"
| "add_projected e fs collName (idx # idxs) m =
     (if idx < length fs then
        (case fField (fs ! idx) of
           None \<Rightarrow> (Undefined, m)
         | Some fld \<Rightarrow>
             (case Create_field e (fldName fld) (''ROOT::RVec<'' @ fldType fld @ ''>'') of
                Inl msg \<Rightarrow> (Throws msg, m)
              | Inr projectedField \<Rightarrow>
                  add_projected e fs collName idxs
                    (m\<lparr>mProjected := mProjected m @
                        [(projectedField, collName, collName @ ''.'' @ fldName fld)]\<rparr>)))
      else (Undefined, m))"

definition prepare_collection ::
  "env \<Rightarrow> int \<Rightarrow> string \<Rightarrow> RImportLeafCountCollection \<Rightarrow> RNTupleImporter \<Rightarrow>
     status \<times> RImportLeafCountCollection \<times> RNTupleImporter" where
  "prepare_collection e iLeafCountCollection countLeafName c imp =
     (case fCollectionModel c of
        None \<Rightarrow> (Undefined, c, imp)
      | Some cm \<Rightarrow>
          (case capture_fields (fImportFields imp) (fImportFieldIndexes c) of
             None \<Rightarrow> (Undefined, c, imp)
           | Some en \<Rightarrow>
               (let cm1 = cm\<lparr>mFrozen := True\<rparr>;
                    c1 = c\<lparr>fCollectionModel := Some cm1, fCollectionEntry := Some en\<rparr>;
                    c2 = c1\<lparr>fFieldName := ''_collection'' @ to_string iLeafCountCollection\<rparr>
                in case fModel imp of
                     None \<Rightarrow> (Undefined, c2, imp)
                   | Some m \<Rightarrow>
                       (let c3 = c2\<lparr>fCollectionWriter := Some 0, fCollectionModel := None\<rparr>;
                            m1 = m\<lparr>mCollections := mCollections m @ [(fFieldName c3, mFields cm1)]\<rparr>
                        in case add_projected e (fImportFields imp) (fFieldName c3)
                                  (fImportFieldIndexes c3) m1 of
                             (Success, m2) \<Rightarrow>
                               (case Create_field e countLeafName
                                       ''ROOT::Experimental::RNTupleCardinality'' of
                                  Inl msg \<Rightarrow> (Throws msg, c3, imp\<lparr>fModel := Some m2\<rparr>)
                                | Inr projectedField \<Rightarrow>
                                    (Success, c3,
                                     imp\<lparr>fModel := Some (m2\<lparr>mProjected := mProjected m2 @
                                       [(projectedField, fFieldName c3, fFieldName c3)]\<rparr>)\<rparr>))
                           | (s, m2) \<Rightarrow> (s, c3, imp\<lparr>fModel := Some m2\<rparr>)))))"

fun collections_loop ::
  "env \<Rightarrow> int \<Rightarrow> collections \<Rightarrow> RNTupleImporter \<Rightarrow> status \<times> collections \<times> RNTupleImporter" where
  "collections_loop e i [] imp = (Success, [], imp)"
| "collections_loop e i ((countLeafName, c) # rest) imp =
     (case prepare_collection e i countLeafName c imp of
        (Success, c', imp') \<Rightarrow>
          (case collections_loop e (i + 1) rest imp' of
             (s, rest', imp'') \<Rightarrow> (s, (countLeafName, c') # rest', imp''))
      | (s, c', imp') \<Rightarrow> (s, (countLeafName, c') # rest, imp'))"

subsection \<open>\<open>PrepareSchema\<close>: the top-level entry and the schema report\<close>

fun capture_top :: "RImportField list \<Rightarrow> REntry option" where
  "capture_top [] = Some []"
| "capture_top (f # fs) =
     (if fIsInUntypedCollection f then capture_top fs
      else
        (case fField f of
           None \<Rightarrow> None
         | Some fld \<Rightarrow>
             (case capture_top fs of
                None \<Rightarrow> None
              | Some en \<Rightarrow> Some ((fldName fld, fFieldBuffer f) # en))))"

fun capture_offsets :: "collections \<Rightarrow> REntry option" where
  "capture_offsets [] = Some []"
| "capture_offsets ((k, c) # cs) =
     (case fCollectionWriter c of
        None \<Rightarrow> None
      | Some off \<Rightarrow>
          (case capture_offsets cs of
             None \<Rightarrow> None
           | Some en \<Rightarrow> Some ((fFieldName c, OffsetPtr k) # en)))"

fun ReportSchema :: "RImportField list \<Rightarrow> event list option" where
  "ReportSchema [] = Some []"
| "ReportSchema (f # fs) =
     (case fField f of
        None \<Rightarrow> None
      | Some fld \<Rightarrow>
          (case ReportSchema fs of
             None \<Rightarrow> None
           | Some evs \<Rightarrow> Some (EvReportSchema (fldName fld) (fldType fld) # evs)))"

definition finish_schema :: "RNTupleImporter \<Rightarrow> status \<times> RNTupleImporter \<times> event list" where
  "finish_schema imp =
     (case fModel imp of
        None \<Rightarrow> (Undefined, imp, [])
      | Some m \<Rightarrow>
          (let imp1 = imp\<lparr>fModel := Some (m\<lparr>mFrozen := True\<rparr>)\<rparr>
           in case capture_top (fImportFields imp1) of
                None \<Rightarrow> (Undefined, imp1, [])
              | Some en1 \<Rightarrow>
                  (case capture_offsets (fLeafCountCollections imp1) of
                     None \<Rightarrow> (Undefined, imp1, [])
                   | Some en2 \<Rightarrow>
                       (let imp2 = imp1\<lparr>fEntry := Some (en1 @ en2)\<rparr>
                        in if \<not> fIsQuiet imp2 then
                             (case ReportSchema (fImportFields imp2) of
                                None \<Rightarrow> (Undefined, imp2, [])
                              | Some evs \<Rightarrow> (Success, imp2, evs))
                           else (Success, imp2, [])))))"

definition PrepareSchema :: "env \<Rightarrow> RNTupleImporter \<Rightarrow> status \<times> RNTupleImporter \<times> event list" where
  "PrepareSchema e imp =
     (let imp0 = ResetSchema imp
      in case fSourceTree imp0 of
           None \<Rightarrow> (Undefined, imp0, [])
         | Some tree \<Rightarrow>
             (case branch_loop e (tBranches tree) imp0 of
                (Success, imp1) \<Rightarrow>
                  (case collections_loop e 0 (fLeafCountCollections imp1) imp1 of
                     (Success, colls, imp2) \<Rightarrow>
                       finish_schema (imp2\<lparr>fLeafCountCollections := colls\<rparr>)
                   | (s, colls, imp2) \<Rightarrow> (s, imp2\<lparr>fLeafCountCollections := colls\<rparr>, []))
              | (s, imp1) \<Rightarrow> (s, imp1, [])))"

subsection \<open>The transformations\<close>

text \<open>
  \<open>Transform\<close> is called as
  \<open>t->Transform(fImportBranches[t->fImportBranchIdx], fImportFields[t->fImportFieldIdx])\<close>:
  an index out of range, a null \<open>fField\<close> in the array case and a null destination
  buffer are undefined behaviour. Both transformations always return success. The array
  transformation copies \<open>valueSize\<close> bytes from offset \<open>fNum * valueSize\<close> of the
  branch buffer, without any check against the size of that buffer, and increments
  \<open>fNum\<close>.
\<close>

definition Transform ::
  "RImportBranch list \<Rightarrow> RImportField list \<Rightarrow> RImportTransformation \<Rightarrow>
     status \<times> RImportTransformation \<times> event list" where
  "Transform importBranches importFields t =
     (if fImportBranchIdx t < length importBranches \<and> fImportFieldIdx t < length importFields then
        (if fFieldBuffer (importFields ! fImportFieldIdx t) = Null then (Undefined, t, [])
         else
           (case t of
              RCStringTransformation b f \<Rightarrow> (Success, t, [EvReadCString b f])
            | RLeafArrayTransformation b f fNum \<Rightarrow>
                (case fField (importFields ! f) of
                   None \<Rightarrow> (Undefined, t, [])
                 | Some fld \<Rightarrow>
                     (let valueSize = fldValueSize fld
                      in (Success, RLeafArrayTransformation b f (fNum + 1),
                          [EvReadArrayElement b f (size_t_mul fNum valueSize) valueSize])))))
      else (Undefined, t, []))"

text \<open>The loop over \<open>c.fTransformations\<close> for one element of a collection.\<close>

fun transform_all ::
  "RImportBranch list \<Rightarrow> RImportField list \<Rightarrow> RImportTransformation list \<Rightarrow>
     status \<times> RImportTransformation list \<times> event list" where
  "transform_all importBranches importFields [] = (Success, [], [])"
| "transform_all importBranches importFields (t # ts) =
     (case Transform importBranches importFields t of
        (Success, t', evs) \<Rightarrow>
          (case transform_all importBranches importFields ts of
             (s, ts', evs') \<Rightarrow> (s, t' # ts', evs @ evs'))
      | (s, t', evs) \<Rightarrow> (s, t' # ts, evs))"

text \<open>
  The loop \<open>for (Int_t l = 0; l < *c.fCountVal; ++l)\<close> for one collection and one
  entry: every transformation once, then one \<open>Fill\<close> of the collection writer, which
  advances its offset counter.
\<close>

function element_loop ::
  "RImportBranch list \<Rightarrow> RImportField list \<Rightarrow> string \<Rightarrow> int \<Rightarrow> int \<Rightarrow>
     RImportLeafCountCollection \<Rightarrow> status \<times> RImportLeafCountCollection \<times> event list" where
  "element_loop importBranches importFields k l countVal c =
     (if l < countVal then
        (case transform_all importBranches importFields (fTransformations c) of
           (Success, ts, evs) \<Rightarrow>
             (case fCollectionWriter c of
                None \<Rightarrow> (Undefined, c\<lparr>fTransformations := ts\<rparr>, evs)
              | Some off \<Rightarrow>
                  (case element_loop importBranches importFields k (l + 1) countVal
                          (c\<lparr>fTransformations := ts, fCollectionWriter := Some (off + 1)\<rparr>) of
                     (s, c', evs') \<Rightarrow> (s, c', evs @ EvCollectionFill k # evs')))
         | (s, ts, evs) \<Rightarrow> (s, c\<lparr>fTransformations := ts\<rparr>, evs))
      else (Success, c, []))"
  by pat_completeness auto
termination
  by (relation "measure (\<lambda>(importBranches, importFields, k, l, countVal, c). nat (countVal - l))") auto

declare element_loop.simps [simp del]

text \<open>
  The body of the loop over \<open>fLeafCountCollections\<close> for entry \<open>i\<close>: the elements
  of one collection, then the reset of its transformations.
\<close>

definition fill_collection ::
  "RImportBranch list \<Rightarrow> RImportField list \<Rightarrow> TTree \<Rightarrow> int \<Rightarrow> string \<Rightarrow>
     RImportLeafCountCollection \<Rightarrow> status \<times> RImportLeafCountCollection \<times> event list" where
  "fill_collection importBranches importFields tree i k c =
     (case fCountVal c of
        None \<Rightarrow> (Undefined, c, [])
      | Some countBranch \<Rightarrow>
          (case element_loop importBranches importFields k 0 (tCountValue tree i countBranch) c of
             (Success, c', evs) \<Rightarrow>
               (Success, c'\<lparr>fTransformations := map ResetEntry (fTransformations c')\<rparr>, evs)
           | r \<Rightarrow> r))"

fun fill_collections ::
  "RImportBranch list \<Rightarrow> RImportField list \<Rightarrow> TTree \<Rightarrow> int \<Rightarrow> collections \<Rightarrow>
     status \<times> collections \<times> event list" where
  "fill_collections importBranches importFields tree i [] = (Success, [], [])"
| "fill_collections importBranches importFields tree i ((k, c) # cs) =
     (case fill_collection importBranches importFields tree i k c of
        (Success, c', evs) \<Rightarrow>
          (case fill_collections importBranches importFields tree i cs of
             (s, cs', evs') \<Rightarrow> (s, (k, c') # cs', evs @ evs'))
      | (s, c', evs) \<Rightarrow> (s, (k, c') # cs, evs))"

text \<open>The loop over \<open>fImportTransformations\<close>.\<close>

fun transform_top ::
  "RImportBranch list \<Rightarrow> RImportField list \<Rightarrow> RImportTransformation list \<Rightarrow>
     status \<times> RImportTransformation list \<times> event list" where
  "transform_top importBranches importFields [] = (Success, [], [])"
| "transform_top importBranches importFields (t # ts) =
     (case Transform importBranches importFields t of
        (Success, t', evs) \<Rightarrow>
          (case transform_top importBranches importFields ts of
             (s, ts', evs') \<Rightarrow> (s, ResetEntry t' # ts', evs @ evs'))
      | (s, t', evs) \<Rightarrow> (s, t' # ts, evs))"

subsection \<open>The progress callback\<close>

definition gUpdateFrequencyBytes :: nat where
  "gUpdateFrequencyBytes = 50 * 1000 * 1000"

text \<open>\<open>RDefaultProgressCallback::Call\<close>, on its \<open>fNbytesNext\<close>.\<close>

definition Call :: "nat \<Rightarrow> nat \<Rightarrow> nat \<Rightarrow> nat \<times> event list" where
  "Call fNbytesNext nbytesWritten neventsWritten =
     (if nbytesWritten < fNbytesNext then (fNbytesNext, [])
      else (size_t_add fNbytesNext gUpdateFrequencyBytes,
            [EvPrintWrote (nbytesWritten div 1000 div 1000) neventsWritten]))"

definition Finish :: "nat \<Rightarrow> nat \<Rightarrow> event list" where
  "Finish nbytesWritten neventsWritten =
     [EvPrintDone (nbytesWritten div 1000 div 1000) neventsWritten]"

subsection \<open>\<open>Import\<close>\<close>

text \<open>
  The values the writer reads through the offset pointers captured in the top-level
  entry when it fills a record.
\<close>

fun captured_offsets :: "collections \<Rightarrow> REntry \<Rightarrow> (string \<times> nat) list" where
  "captured_offsets colls [] = []"
| "captured_offsets colls ((n, OffsetPtr k) # en) =
     (case map_of colls k of
        Some c \<Rightarrow>
          (case fCollectionWriter c of
             Some off \<Rightarrow> (n, off) # captured_offsets colls en
           | None \<Rightarrow> captured_offsets colls en)
      | None \<Rightarrow> captured_offsets colls en)"
| "captured_offsets colls ((n, buf) # en) = captured_offsets colls en"

text \<open>
  The body of the loop over the entries. Beside the importer, its state is the number of
  records the writer has been filled with.
\<close>

type_synonym loop_state = "RNTupleImporter \<times> nat"

definition import_entry ::
  "env \<Rightarrow> TTree \<Rightarrow> int \<Rightarrow> loop_state \<Rightarrow> status \<times> loop_state \<times> event list" where
  "import_entry e tree i st =
     (case st of (imp, nFilled) \<Rightarrow>
      (case fill_collections (fImportBranches imp) (fImportFields imp) tree i
              (fLeafCountCollections imp) of
         (Success, colls, evs1) \<Rightarrow>
           (let imp1 = imp\<lparr>fLeafCountCollections := colls\<rparr>
            in case transform_top (fImportBranches imp1) (fImportFields imp1)
                      (fImportTransformations imp1) of
                 (Success, ts, evs2) \<Rightarrow>
                   (let imp2 = imp1\<lparr>fImportTransformations := ts\<rparr>
                    in case fEntry imp2 of
                         None \<Rightarrow> (Undefined, (imp2, nFilled), EvGetEntry i # evs1 @ evs2)
                       | Some en \<Rightarrow>
                           (let fill = EvFill (captured_offsets colls en)
                            in case fProgressCallback imp2 of
                                 None \<Rightarrow>
                                   (Success, (imp2, nFilled + 1),
                                    EvGetEntry i # evs1 @ evs2 @ [fill])
                               | Some fNbytesNext \<Rightarrow>
                                   (let nbytes = size_t_of_int (szWritePayload e (nFilled + 1));
                                        nevents = size_t_of_int i;
                                        (next, printed) = Call fNbytesNext nbytes nevents
                                    in (Success,
                                        (imp2\<lparr>fProgressCallback := Some next\<rparr>, nFilled + 1),
                                        EvGetEntry i # evs1 @ evs2 @
                                          [fill, EvCall nbytes nevents] @ printed))))
               | (s, ts, evs2) \<Rightarrow>
                   (s, (imp1\<lparr>fImportTransformations := ts\<rparr>, nFilled),
                    EvGetEntry i # evs1 @ evs2))
       | (s, colls, evs1) \<Rightarrow>
           (s, (imp\<lparr>fLeafCountCollections := colls\<rparr>, nFilled), EvGetEntry i # evs1)))"

function import_loop ::
  "env \<Rightarrow> TTree \<Rightarrow> int \<Rightarrow> int \<Rightarrow> loop_state \<Rightarrow> status \<times> loop_state \<times> event list" where
  "import_loop e tree i nEntries st =
     (if i < nEntries then
        (case import_entry e tree i st of
           (Success, st', evs) \<Rightarrow>
             (case import_loop e tree (i + 1) nEntries st' of
                (s, st'', evs') \<Rightarrow> (s, st'', evs @ evs'))
         | r \<Rightarrow> r)
      else (Success, st, []))"
  by pat_completeness auto
termination
  by (relation "measure (\<lambda>(e, tree, i, nEntries, st). nat (nEntries - i))") auto

declare import_loop.simps [simp del]

text \<open>
  Modelled from the spec: the writer is finalized as a consequence of its owning scope
  ending (its destructor is not part of the translation unit); the destination file then
  holds an object under the target name.
\<close>

definition close_writer :: "RNTupleImporter \<Rightarrow> RNTupleImporter" where
  "close_writer imp =
     imp\<lparr>fDestFile := map_option (\<lambda>f. f\<lparr>fKeys := fKeys f @ [fNTupleName imp]\<rparr>) (fDestFile imp)\<rparr>"

definition limit_entries :: "int \<Rightarrow> int \<Rightarrow> int" where
  "limit_entries maxEntries nEntries =
     (if maxEntries \<ge> 0 \<and> maxEntries < nEntries then maxEntries else nEntries)"

text \<open>
  The importer once the writer has been created: the model has been moved into the
  writer and the progress callback is set.
\<close>

definition bind_writer :: "RNTupleImporter \<Rightarrow> RNTupleImporter" where
  "bind_writer imp =
     (let imp1 = imp\<lparr>fModel := None\<rparr>
      in imp1\<lparr>fProgressCallback :=
                (if fIsQuiet imp1 then None else Some gUpdateFrequencyBytes)\<rparr>)"

text \<open>\<open>Import\<close> from the creation of the sink on.\<close>

definition write_entries :: "env \<Rightarrow> RNTupleImporter \<Rightarrow> status \<times> RNTupleImporter \<times> event list" where
  "write_entries e imp =
     (case fModel imp of
        None \<Rightarrow> (Undefined, imp, [])
      | Some m \<Rightarrow>
          (let imp2 = bind_writer imp
           in case fSourceTree imp2 of
                None \<Rightarrow> (Undefined, imp2, [EvOpenWriter (fNTupleName imp)])
              | Some tree \<Rightarrow>
                  (let nEntries = limit_entries (fMaxEntries imp2) (tEntries tree)
                   in case import_loop e tree 0 nEntries (imp2, 0) of
                        (Success, (imp3, nFilled), evs) \<Rightarrow>
                          (Success, close_writer imp3,
                           EvOpenWriter (fNTupleName imp) # evs @
                             (case fProgressCallback imp3 of
                                None \<Rightarrow> []
                              | Some fNbytesNext \<Rightarrow>
                                  EvFinish (size_t_of_int (szWritePayload e nFilled))
                                    (size_t_of_int nEntries) #
                                  Finish (size_t_of_int (szWritePayload e nFilled))
                                    (size_t_of_int nEntries)) @
                             [EvCloseWriter])
                      | (Undefined, (imp3, nFilled), evs) \<Rightarrow>
                          (Undefined, imp3, EvOpenWriter (fNTupleName imp) # evs)
                      | (s, (imp3, nFilled), evs) \<Rightarrow>
                          (s, close_writer imp3,
                           EvOpenWriter (fNTupleName imp) # evs @ [EvCloseWriter]))))"

definition Import :: "env \<Rightarrow> RNTupleImporter \<Rightarrow> status \<times> RNTupleImporter \<times> event list" where
  "Import e imp =
     (case fDestFile imp of
        None \<Rightarrow> (Undefined, imp, [])
      | Some destFile \<Rightarrow>
          if FindKey destFile (fNTupleName imp)
          then (Failure (''Key '' @ [CHR 0x27] @ fNTupleName imp @ [CHR 0x27] @
                           '' already exists in file '' @ fDestFileName imp), imp, [])
          else
            (case PrepareSchema e imp of
               (r, imp1, evs0) \<Rightarrow>
                 (case discard e r of
                    Success \<Rightarrow>
                      (case write_entries e imp1 of
                         (s, imp2, evs) \<Rightarrow> (s, imp2, evs0 @ evs))
                  | s \<Rightarrow> (s, imp1, evs0))))"

subsection \<open>Views of the trace and of the schema\<close>

text \<open>The entries read, the top-level records filled and the sub-collection records.\<close>

fun entries_read :: "event list \<Rightarrow> int list" where
  "entries_read [] = []"
| "entries_read (EvGetEntry i # evs) = i # entries_read evs"
| "entries_read (ev # evs) = entries_read evs"

fun is_fill :: "event \<Rightarrow> bool" where
  "is_fill (EvFill offs) = True"
| "is_fill ev = False"

text \<open>
  An event of the transformations and collection writers: what the loop body does
  between reading an entry and filling the record.
\<close>

fun is_inner :: "event \<Rightarrow> bool" where
  "is_inner (EvCollectionFill k) = True"
| "is_inner (EvReadArrayElement b f off len) = True"
| "is_inner (EvReadCString b f) = True"
| "is_inner ev = False"

text \<open>
  A read of an array element lies within the buffer of the import branch it reads from.
\<close>

fun read_in_bounds :: "RImportBranch list \<Rightarrow> event \<Rightarrow> bool" where
  "read_in_bounds importBranches (EvReadArrayElement b f off len) =
     (b < length importBranches \<and> off + len \<le> fBranchBuffer (importBranches ! b))"
| "read_in_bounds importBranches ev = True"



text \<open>
  Modelled from the spec: the projected variable-length sequence of a collection for an
  outer record consists of the sub-collection records between the offset captured by the
  previous outer record and the offset captured by this one (the reader of the
  destination is not part of the translation unit). Its length for a record is the
  advance of the offset counter while the record is processed.
\<close>

definition projected_length :: "RImportLeafCountCollection \<Rightarrow> RImportLeafCountCollection \<Rightarrow> nat" where
  "projected_length before after =
     (case (fCollectionWriter before, fCollectionWriter after) of
        (Some off, Some off') \<Rightarrow> off' - off
      | _ \<Rightarrow> 0)"

text \<open>
  The maximum length that the map holds for a count leaf name; 0 for a name it does not
  hold, as in the element that \<open>operator[]\<close> inserts for it.
\<close>

definition maxLengthOf :: "collections \<Rightarrow> string \<Rightarrow> int" where
  "maxLengthOf colls k = (case map_of colls k of Some c \<Rightarrow> fMaxLength c | None \<Rightarrow> 0)"

subsection \<open>Example inputs\<close>

definition leaf0 :: TLeaf where
  "leaf0 = \<lparr>lName = [], lTypeName = ''Int_t'', lIsA = TLeafOther, lIsRange = False,
     lLeafCounter = None, lCountval = 1, lMaximum = 0, lOffset = 0\<rparr>"

definition file0 :: TFile where
  "file0 = \<lparr>IsZombie = False, fKeys = [], fTrees = []\<rparr>"

text \<open>
  A count leaf \<open>n\<close> with maximum 2, an array \<open>a[n]\<close> of \<open>Int_t\<close>, and a C string \<open>s\<close>
  read into a buffer of 100 bytes.
\<close>

definition branch_n :: TBranch where
  "branch_n = \<lparr>bName = ''n'', bClassName = [],
     bLeaves = [leaf0\<lparr>lName := ''n'', lIsRange := True, lMaximum := 2\<rparr>]\<rparr>"

definition branch_a :: TBranch where
  "branch_a = \<lparr>bName = ''a'', bClassName = [],
     bLeaves = [leaf0\<lparr>lName := ''a'', lLeafCounter := Some ''n''\<rparr>]\<rparr>"

definition leaf_s :: TLeaf where
  "leaf_s = leaf0\<lparr>lName := ''s'', lTypeName := ''Char_t'', lIsA := TLeafC, lMaximum := 100\<rparr>"

definition branch_s :: TBranch where
  "branch_s = \<lparr>bName = ''s'', bClassName = [], bLeaves = [leaf_s]\<rparr>"

text \<open>A leaf list whose first leaf is of a class type: unsupported.\<close>

definition branch_bad :: TBranch where
  "branch_bad = \<lparr>bName = ''ev'', bClassName = ''Event'',
     bLeaves = [leaf0\<lparr>lName := ''x'', lIsA := TLeafElement\<rparr>, leaf0\<lparr>lName := ''y''\<rparr>]\<rparr>"

definition count_by_index :: "int \<Rightarrow> string \<Rightarrow> int" where
  "count_by_index i b = (if b = ''n'' then i else 0)"

definition tree_na :: TTree where
  "tree_na = \<lparr>tName = ''t'', tBranches = [branch_n, branch_a], tEntries = 3,
     tCountValue = count_by_index\<rparr>"

definition tree_s :: TTree where
  "tree_s = \<lparr>tName = ''t'', tBranches = [branch_s], tEntries = 1,
     tCountValue = count_by_index\<rparr>"

definition tree_bad :: TTree where
  "tree_bad = \<lparr>tName = ''t'', tBranches = [branch_bad], tEntries = 0,
     tCountValue = count_by_index\<rparr>"

text \<open>
  A field factory that knows four types, a class dictionary that knows no class, a file
  system in which only \<open>in.root\<close> (holding \<open>tree_na\<close>) and \<open>out.root\<close> can be
  opened, and a sink that compresses every entry to 100 MB.
\<close>

definition env0 :: env where
  "env0 = \<lparr>Create_field = (\<lambda>n t.
        if t = ''Int_t'' then Inr \<lparr>fldName = n, fldType = ''std::int32_t'', fldValueSize = 4\<rparr>
        else if t = ''std::string'' then Inr \<lparr>fldName = n, fldType = t, fldValueSize = 32\<rparr>
        else if t = ''ROOT::RVec<std::int32_t>'' then Inr \<lparr>fldName = n, fldType = t, fldValueSize = 24\<rparr>
        else if t = ''ROOT::Experimental::RNTupleCardinality''
          then Inr \<lparr>fldName = n, fldType = t, fldValueSize = 8\<rparr>
        else Inl (''unknown type: '' @ t)),
     RRecordField_new = (\<lambda>n fs. \<lparr>fldName = n, fldType = [], fldValueSize = sum_list (map fldValueSize fs)\<rparr>),
     GetClass = (\<lambda>c. False),
     TFile_Open = (\<lambda>n m. if n = ''in.root'' then Some (file0\<lparr>fTrees := [(''t'', tree_na)]\<rparr>)
                          else if n = ''out.root'' then Some file0 else None),
     szWritePayload = (\<lambda>n. 100000000 * int n),
     unchecked_throws = False\<rparr>"

text \<open>The same with an \<open>RResult\<close> that throws its error when it is dropped unchecked.\<close>

definition env0_throwing :: env where
  "env0_throwing = env0\<lparr>unchecked_throws := True\<rparr>"

definition importer_of :: "TTree \<Rightarrow> RNTupleImporter" where
  "importer_of tree = RNTupleImporter0\<lparr>fNTupleName := tName tree, fDestFileName := ''out.root'',
     fSourceTree := Some tree, fDestFile := Some file0\<rparr>"

definition importer_collision :: RNTupleImporter where
  "importer_collision = (importer_of tree_na)\<lparr>fDestFile := Some (file0\<lparr>fKeys := [''t'']\<rparr>)\<rparr>"

text \<open>
  The size of the branch buffer by the kind of the leaf, in terms of the maximum length
  recorded for the leaf's count leaf: the statement that the size computed by
  \<open>leafBranchBufferSize\<close> is compared with.
\<close>

definition buffer_size_rule :: "collections \<Rightarrow> bool \<Rightarrow> bool \<Rightarrow> TLeaf \<Rightarrow> RField \<Rightarrow> nat" where
  "buffer_size_rule colls isCStr isCls l field =
          (if isCStr then size_t_of_int (lMaximum l)
           else if isCls then size_t_mul sizeof_ptr (size_t_of_int (lCountval l))
           else (case lLeafCounter l of
                   Some k \<Rightarrow> size_t_mul (size_t_of_int (maxLengthOf colls k)) (fldValueSize field)
                 | None \<Rightarrow> size_t_add (size_t_of_int (lOffset l)) (fldValueSize field)))"


text \<open>The state of the importer of \<open>tree_na\<close> once \<open>branch_n\<close> has been processed.\<close>

definition importer_n :: RNTupleImporter where
  "importer_n = (ResetSchema (importer_of tree_na))\<lparr>fLeafCountCollections :=
     [(''n'', RImportLeafCountCollection0\<lparr>fCollectionModel := Some CreateBare, fMaxLength := 2,
                fCountVal := Some ''n''\<rparr>)]\<rparr>"

text \<open>A progress notification: a call of a hook of the callback or a line it prints.\<close>

fun is_progress :: "event \<Rightarrow> bool" where
  "is_progress (EvCall nbytes nevents) = True"
| "is_progress (EvPrintWrote mb nevents) = True"
| "is_progress (EvFinish nbytes nevents) = True"
| "is_progress (EvPrintDone mb nevents) = True"
| "is_progress ev = False"

text \<open>The importer of \<open>tree_na\<close> after schema preparation, and after its entry 2.\<close>

definition field_a :: RField where
  "field_a = \<lparr>fldName = ''a'', fldType = ''std::int32_t'', fldValueSize = 4\<rparr>"

definition prepared_na :: RNTupleImporter where
  "prepared_na = (importer_of tree_na)\<lparr>
     fImportBranches := [\<lparr>fBranchName = ''a'', fBranchBuffer = 8\<rparr>],
     fImportFields := [\<lparr>fField = Some field_a, fFieldBuffer = Owned, fOwnsFieldBuffer = True,
                        fIsInUntypedCollection = True, fIsClass = False\<rparr>],
     fLeafCountCollections :=
       [(''n'', \<lparr>fCollectionModel = None, fCollectionWriter = Some 0,
                 fCollectionEntry = Some [(''a'', Owned)], fCountVal = Some ''n'',
                 fImportFieldIndexes = [0], fTransformations = [RLeafArrayTransformation 0 0 0],
                 fMaxLength = 2, fFieldName = ''_collection0''\<rparr>)],
     fImportTransformations := [],
     fModel := Some \<lparr>mFields = [], mCollections = [(''_collection0'', [field_a])],
        mProjected =
          [(\<lparr>fldName = ''a'', fldType = ''ROOT::RVec<std::int32_t>'', fldValueSize = 24\<rparr>,
            ''_collection0'', ''_collection0.a''),
           (\<lparr>fldName = ''n'', fldType = ''ROOT::Experimental::RNTupleCardinality'', fldValueSize = 8\<rparr>,
            ''_collection0'', ''_collection0'')],
        mFrozen = True\<rparr>,
     fEntry := Some [(''_collection0'', OffsetPtr ''n'')]\<rparr>"

definition after_entry2 :: RNTupleImporter where
  "after_entry2 = prepared_na\<lparr>fLeafCountCollections :=
       [(''n'', \<lparr>fCollectionModel = None, fCollectionWriter = Some 2,
                 fCollectionEntry = Some [(''a'', Owned)], fCountVal = Some ''n'',
                 fImportFieldIndexes = [0], fTransformations = [RLeafArrayTransformation 0 0 0],
                 fMaxLength = 2, fFieldName = ''_collection0''\<rparr>)]\<rparr>"

text \<open>The members of the importer that neither schema preparation nor the loop changes.\<close>

definition settings :: "RNTupleImporter \<Rightarrow> string \<times> string \<times> TTree option \<times> TFile option \<times> bool \<times> int" where
  "settings imp = (fNTupleName imp, fDestFileName imp, fSourceTree imp, fDestFile imp, fIsQuiet imp,
     fMaxEntries imp)"


text \<open>
  The state of the array transformations of a collection between two records: every one
  is an array transformation with valid indexes, an import field with a field, the element
  counter \<open>num\<close>, and a branch buffer of the size \<open>PrepareSchema\<close> computes for a
  leaf count array, the maximum length of the collection times the value size of the
  field, where this product fits \<open>std::size_t\<close>. With \<open>withClasses\<close>, nothing is asked
  of the buffer of a transformation whose import field is of a class type (that buffer
  has the size of a pointer times the count value of the leaf); without it, there is no
  such transformation.
\<close>

fun is_cstring :: "RImportTransformation \<Rightarrow> bool" where
  "is_cstring (RCStringTransformation b f) = True"
| "is_cstring (RLeafArrayTransformation b f fNum) = False"




text \<open>The tree \<open>tree_na\<close> with entries whose count leaf reads 3, above its maximum 2.\<close>

definition tree_over :: TTree where
  "tree_over = tree_na\<lparr>tCountValue := (\<lambda>i b. 3)\<rparr>"


definition importer_limit2 :: RNTupleImporter where
  "importer_limit2 = (importer_of tree_na)\<lparr>fIsQuiet := True, fMaxEntries := 2\<rparr>"






text \<open>
  What the import loop needs of the schema to run without undefined behaviour: every
  transformation has its branch and its field in the tables, writes to a buffer that is
  not null, and, for an array, has a field to take the value size from; every collection
  has its count leaf and its writer; and the top-level entry exists.
\<close>

definition transformation_runnable ::
  "RImportBranch list \<Rightarrow> RImportField list \<Rightarrow> RImportTransformation \<Rightarrow> bool" where
  "transformation_runnable importBranches importFields t =
     (fImportBranchIdx t < length importBranches \<and> fImportFieldIdx t < length importFields \<and>
      fFieldBuffer (importFields ! fImportFieldIdx t) \<noteq> Null \<and>
      (is_cstring t \<or> fField (importFields ! fImportFieldIdx t) \<noteq> None))"

definition collection_runnable ::
  "RImportBranch list \<Rightarrow> RImportField list \<Rightarrow> RImportLeafCountCollection \<Rightarrow> bool" where
  "collection_runnable importBranches importFields c =
     (fCountVal c \<noteq> None \<and> fCollectionWriter c \<noteq> None \<and>
      list_all (transformation_runnable importBranches importFields) (fTransformations c))"

definition runnable :: "RNTupleImporter \<Rightarrow> bool" where
  "runnable imp =
     (fEntry imp \<noteq> None \<and>
      list_all (transformation_runnable (fImportBranches imp) (fImportFields imp))
        (fImportTransformations imp) \<and>
      (\<forall>(k, c) \<in> set (fLeafCountCollections imp).
         collection_runnable (fImportBranches imp) (fImportFields imp) c))"

text \<open>
  The same during \<open>PrepareSchema\<close>, before the collection writers and the entry are
  created: a collection that has a model is one created for a count leaf branch, and has its
  count leaf.
\<close>

definition prep_runnable :: "RNTupleImporter \<Rightarrow> bool" where
  "prep_runnable imp =
     (list_all (transformation_runnable (fImportBranches imp) (fImportFields imp))
        (fImportTransformations imp) \<and>
      (\<forall>(k, c) \<in> set (fLeafCountCollections imp).
         (fCollectionModel c \<noteq> None \<longrightarrow> fCountVal c \<noteq> None) \<and>
         list_all (transformation_runnable (fImportBranches imp) (fImportFields imp))
           (fTransformations c)))"

text \<open>
  What a fully emitted sub-collection record consists of. One run of a transformation for
  element \<open>l\<close> of a record: a C string transformation reads the C string; an array
  transformation whose element counter stood at \<open>fNum\<close> when the record was begun reads
  the value at offset \<open>(fNum + l) * valueSize\<close> of its branch buffer.
\<close>

fun transformation_run :: "RImportField list \<Rightarrow> nat \<Rightarrow> RImportTransformation \<Rightarrow> event list" where
  "transformation_run importFields l (RCStringTransformation b f) = [EvReadCString b f]"
| "transformation_run importFields l (RLeafArrayTransformation b f fNum) =
     (if f < length importFields then
        (case fField (importFields ! f) of
           None \<Rightarrow> []
         | Some fld \<Rightarrow>
             [EvReadArrayElement b f (size_t_mul (fNum + l) (fldValueSize fld)) (fldValueSize fld)])
      else [])"

text \<open>
  Element \<open>l\<close> of collection \<open>k\<close>: one run of every transformation of the collection, in
  their order, then the record submitted to the collection writer.
\<close>

definition element_emission ::
  "RImportField list \<Rightarrow> string \<Rightarrow> RImportTransformation list \<Rightarrow> nat \<Rightarrow> event list" where
  "element_emission importFields k ts l =
     concat (map (transformation_run importFields l) ts) @ [EvCollectionFill k]"

text \<open>
  The sub-collection records of collection \<open>k\<close> for entry \<open>i\<close>: the elements
  \<open>0, ..., count - 1\<close> in this order, where \<open>count\<close> is what the count leaf reads for the
  entry; and those of all collections, in the order of the map.
\<close>

definition collection_emission ::
  "RImportField list \<Rightarrow> TTree \<Rightarrow> int \<Rightarrow> string \<Rightarrow> RImportLeafCountCollection \<Rightarrow> event list" where
  "collection_emission importFields tree i k c =
     (case fCountVal c of
        None \<Rightarrow> []
      | Some countBranch \<Rightarrow>
          concat (map (element_emission importFields k (fTransformations c))
                    [0..<nat (tCountValue tree i countBranch)]))"

definition record_emission ::
  "RImportField list \<Rightarrow> TTree \<Rightarrow> int \<Rightarrow> collections \<Rightarrow> event list" where
  "record_emission importFields tree i colls =
     concat (map (\<lambda>(k, c). collection_emission importFields tree i k c) colls)"






section \<open>Properties\<close>

subsection \<open>Name collision in the destination\<close>

text \<open>
  C3: when the destination file already holds an object under the target name, \<open>Import\<close>
  fails with an error before schema preparation runs and before anything is written: it
  returns the failure with the importer unchanged (its schema state and its destination
  file included) and without a single event (no schema report, no writer, no record).
\<close>

theorem Import_name_collision:
  assumes "fDestFile imp = Some destFile" and "FindKey destFile (fNTupleName imp)"
  shows "Import e imp =
           (Failure (''Key '' @ [CHR 0x27] @ fNTupleName imp @ [CHR 0x27] @
                       '' already exists in file '' @ fDestFileName imp), imp, [])"
  using assms by (simp add: Import_def)

theorem Import_name_collision_witness:
  "fDestFile importer_collision = Some (file0\<lparr>fKeys := [''t'']\<rparr>) \<and>
   FindKey (file0\<lparr>fKeys := [''t'']\<rparr>) (fNTupleName importer_collision) \<and>
   Import env0 importer_collision =
     (Failure (''Key '' @ [CHR 0x27] @ ''t'' @ [CHR 0x27] @ '' already exists in file out.root''),
      importer_collision, [])"
proof -
  have d: "fDestFile importer_collision = Some (file0\<lparr>fKeys := [''t'']\<rparr>)"
    by (simp add: importer_collision_def)
  have k: "FindKey (file0\<lparr>fKeys := [''t'']\<rparr>) (fNTupleName importer_collision)"
    by (simp add: importer_collision_def importer_of_def FindKey_def tree_na_def)
  have n: "fNTupleName importer_collision = ''t''" "fDestFileName importer_collision = ''out.root''"
    by (simp_all add: importer_collision_def importer_of_def tree_na_def)
  show ?thesis
    using Import_name_collision [OF d k, of env0] d k n by simp
qed

subsection \<open>C strings\<close>

lemma isCString_single_leaf:
  assumes "bLeaves b = firstLeaf # rest" and "isCString b firstLeaf"
  shows "rest = []"
  using assms by (cases rest) (simp_all add: isCString_def isLeafList_def GetNleaves_def)

lemma process_leaf_cstring:
  assumes "isCString b l" and "\<not> isLeafList b"
    and "Create_field e (bName b) ''std::string'' = Inr field"
    and "fModel imp = Some m"
  shows "process_leaf e b (isCString b l) (isClass l) (sz, items, imp) l =
           (Success, (size_t_of_int (lMaximum l), items,
              imp\<lparr>fImportTransformations := fImportTransformations imp @
                      [RCStringTransformation (length (fImportBranches imp)) (length (fImportFields imp))],
                  fModel := Some (AddField field m),
                  fImportFields := fImportFields imp @
                      [\<lparr>fField = Some field, fFieldBuffer = Owned, fOwnsFieldBuffer = True,
                        fIsInUntypedCollection = False, fIsClass = False\<rparr>]\<rparr>))"
proof -
  have a: "lIsA l = TLeafC" "lLeafCounter l = None" "isClass l = False" "lCountval l = 1"
    using assms(1) by (simp_all add: isCString_def isClass_def)
  have t: "leafFieldType b True False l = ''std::string''"
    using a by (simp add: leafFieldType_def isFixedSizeArray_def)
  show ?thesis
    using assms a t
    by (simp add: process_leaf_def leafFieldName_def leafBranchBufferSize_def RImportField0_def)
qed

text \<open>
  C6: the first leaf of a branch is classified as a C string exactly when the branch is
  not a leaf list, the leaf is a \<open>TLeafC\<close>, it has no leaf counter and its count value is
  1. For a leaf so classified the type requested from the field factory is
  \<open>std::string\<close>, and (when the leaf is not a count leaf and the factory knows the
  type) the branch yields one import field holding the field that the factory returns
  for \<open>std::string\<close>, added to the top-level model.
\<close>

theorem cstring_classification:
  "(isCString b firstLeaf \<longleftrightarrow>
      (\<not> GetNleaves b > 1 \<and> lIsA firstLeaf = TLeafC \<and> lLeafCounter firstLeaf = None \<and>
       lCountval firstLeaf = 1)) \<and>
   (isCString b firstLeaf \<longrightarrow>
      leafFieldType b (isCString b firstLeaf) (isClass firstLeaf) firstLeaf = ''std::string'') \<and>
   (isCString b firstLeaf \<longrightarrow> bLeaves b = firstLeaf # rest \<longrightarrow> \<not> isCountLeaf firstLeaf \<longrightarrow>
    Create_field e (bName b) ''std::string'' = Inr field \<longrightarrow> fModel imp = Some m \<longrightarrow>
      (\<exists>imp'. process_branch e imp b = (Success, imp') \<and>
         fImportFields imp' = fImportFields imp @
           [\<lparr>fField = Some field, fFieldBuffer = Owned, fOwnsFieldBuffer = True,
             fIsInUntypedCollection = False, fIsClass = False\<rparr>] \<and>
         fModel imp' = Some (AddField field m)))"
proof (intro conjI impI)
  show "isCString b firstLeaf \<longleftrightarrow>
      (\<not> GetNleaves b > 1 \<and> lIsA firstLeaf = TLeafC \<and> lLeafCounter firstLeaf = None \<and>
       lCountval firstLeaf = 1)"
    by (simp add: isCString_def isLeafList_def)
next
  assume c: "isCString b firstLeaf"
  then show "leafFieldType b (isCString b firstLeaf) (isClass firstLeaf) firstLeaf = ''std::string''"
    by (simp add: leafFieldType_def isCString_def isClass_def isFixedSizeArray_def)
next
  assume c: "isCString b firstLeaf" and l: "bLeaves b = firstLeaf # rest"
    and nc: "\<not> isCountLeaf firstLeaf"
    and f: "Create_field e (bName b) ''std::string'' = Inr field" and m: "fModel imp = Some m"
  have r: "rest = []" using isCString_single_leaf [OF l c] .
  have nl: "\<not> isLeafList b" using c by (simp add: isCString_def)
  have cl: "isClass firstLeaf = False" using c by (simp add: isCString_def isClass_def)
  note pl = process_leaf_cstring [OF c nl f m, of 0 "[]"]
  show "\<exists>imp'. process_branch e imp b = (Success, imp') \<and>
         fImportFields imp' = fImportFields imp @
           [\<lparr>fField = Some field, fFieldBuffer = Owned, fOwnsFieldBuffer = True,
             fIsInUntypedCollection = False, fIsClass = False\<rparr>] \<and>
         fModel imp' = Some (AddField field m)"
    using l r nl nc pl cl
    by (simp add: process_branch_def add_record_field_def finish_branch_def)
qed

theorem cstring_classification_witness:
  "isCString branch_s leaf_s \<and>
   leafFieldType branch_s True False leaf_s = ''std::string'' \<and>
   (\<exists>imp'. process_branch env0 (ResetSchema (importer_of tree_s)) branch_s = (Success, imp') \<and>
      fImportFields imp' =
        [\<lparr>fField = Some \<lparr>fldName = ''s'', fldType = ''std::string'', fldValueSize = 32\<rparr>,
          fFieldBuffer = Owned, fOwnsFieldBuffer = True,
          fIsInUntypedCollection = False, fIsClass = False\<rparr>])"
proof -
  have c: "isCString branch_s leaf_s"
    by (simp add: isCString_def isLeafList_def GetNleaves_def branch_s_def leaf_s_def leaf0_def)
  have k: "isClass leaf_s = False" "\<not> isCountLeaf leaf_s"
    by (simp_all add: isClass_def isCountLeaf_def leaf_s_def leaf0_def)
  have l: "bLeaves branch_s = leaf_s # []"
    by (simp add: branch_s_def)
  have f: "Create_field env0 (bName branch_s) ''std::string'' =
             Inr \<lparr>fldName = ''s'', fldType = ''std::string'', fldValueSize = 32\<rparr>"
    by (simp add: env0_def branch_s_def)
  have m: "fModel (ResetSchema (importer_of tree_s)) = Some CreateBare"
          "fImportFields (ResetSchema (importer_of tree_s)) = []"
    by (simp_all add: ResetSchema_def)
  show ?thesis
    using cstring_classification [of branch_s leaf_s "[]" env0
        "\<lparr>fldName = ''s'', fldType = ''std::string'', fldValueSize = 32\<rparr>"
        "ResetSchema (importer_of tree_s)" CreateBare] c k l f m
    by auto
qed

subsection \<open>The size of the branch buffers\<close>

lemma map_of_insert_in_order:
  "map_of m k = None \<Longrightarrow>
     map_of (insert_in_order k v m) k' = (if k' = k then Some v else map_of m k')"
  by (induction m) (auto split: if_splits)

lemma map_of_emplace:
  "map_of (emplace k v m) k' = (if k' = k \<and> map_of m k = None then Some v else map_of m k')"
  by (simp add: emplace_def map_of_insert_in_order split: option.splits)

lemma map_of_assign:
  "map_of (assign k v m) k' = (if k' = k \<and> map_of m k \<noteq> None then Some v else map_of m k')"
  by (induction m) auto

lemma maxLengthOf_subscript:
  assumes "subscript colls k = (c, colls')"
  shows "fMaxLength c = maxLengthOf colls k \<and> map_of colls' k = Some c \<and>
     (\<forall>k'. maxLengthOf colls' k' = maxLengthOf colls k')"
proof (cases "map_of colls k")
  case None
  then have "c = RImportLeafCountCollection0" "colls' = emplace k RImportLeafCountCollection0 colls"
    using assms by (simp_all add: subscript_def)
  then show ?thesis using None
    by (simp add: maxLengthOf_def map_of_emplace RImportLeafCountCollection0_def)
next
  case (Some c0)
  then show ?thesis using assms by (auto simp: subscript_def maxLengthOf_def)
qed

lemma maxLengthOf_assign:
  "map_of colls k = Some c \<Longrightarrow> fMaxLength c' = fMaxLength c \<Longrightarrow>
     maxLengthOf (assign k c' colls) k' = maxLengthOf colls k'"
  by (simp add: maxLengthOf_def map_of_assign)

lemma add_to_collection_maxLengthOf:
  assumes "add_to_collection k field f imp = (s, imp')"
  shows "(\<forall>k'. maxLengthOf (fLeafCountCollections imp') k' = maxLengthOf (fLeafCountCollections imp) k') \<and>
         fImportBranches imp' = fImportBranches imp"
proof -
  obtain c colls where sub: "subscript (fLeafCountCollections imp) k = (c, colls)"
    by (cases "subscript (fLeafCountCollections imp) k")
  note m = maxLengthOf_subscript [OF sub]
  show ?thesis
  proof (cases "fCollectionModel c")
    case None
    then show ?thesis using assms sub m by (auto simp: add_to_collection_def)
  next
    case (Some cm)
    then show ?thesis using assms sub m
      by (auto simp: add_to_collection_def Let_def maxLengthOf_assign)
  qed
qed

lemma leafBranchBufferSize_eq:
  assumes "leafBranchBufferSize colls isCStr isCls l field = (sz, colls')"
  shows "sz = buffer_size_rule colls isCStr isCls l field \<and> (\<forall>k'. maxLengthOf colls' k' = maxLengthOf colls k')"
proof (cases "\<not> isCStr \<and> \<not> isCls \<and> lLeafCounter l \<noteq> None")
  case True
  then obtain k where k: "lLeafCounter l = Some k" by auto
  obtain c colls2 where sub: "subscript colls k = (c, colls2)" by (cases "subscript colls k")
  show ?thesis
    using assms True k sub maxLengthOf_subscript [OF sub]
    by (simp add: leafBranchBufferSize_def buffer_size_rule_def)
next
  case False
  then show ?thesis using assms
    by (auto simp: leafBranchBufferSize_def buffer_size_rule_def split: if_splits)
qed

lemma buffer_size_rule_cong:
  "(\<And>k. maxLengthOf colls1 k = maxLengthOf colls2 k) \<Longrightarrow>
     buffer_size_rule colls1 isCStr isCls l field = buffer_size_rule colls2 isCStr isCls l field"
  by (simp add: buffer_size_rule_def split: option.splits)

lemma process_leaf_size:
  assumes "process_leaf e b isCStr isCls (sz, items, imp) l = (Success, (sz', items', imp'))"
  shows "\<exists>field. Create_field e (leafFieldName b l) (leafFieldType b isCStr isCls l) = Inr field \<and>
           sz' = buffer_size_rule (fLeafCountCollections imp) isCStr isCls l field \<and>
           fImportBranches imp' = fImportBranches imp \<and>
           (\<forall>k'. maxLengthOf (fLeafCountCollections imp') k' = maxLengthOf (fLeafCountCollections imp) k')"
proof -
  from assms have no: "lIsA l \<noteq> TLeafObject"
    by (auto simp: process_leaf_def split: if_splits)
  from assms no obtain field where
    f: "Create_field e (leafFieldName b l) (leafFieldType b isCStr isCls l) = Inr field"
    by (auto simp: process_leaf_def split: sum.splits)
  obtain bs colls where lb:
    "leafBranchBufferSize (fLeafCountCollections imp) isCStr isCls l field = (bs, colls)"
    by (cases "leafBranchBufferSize (fLeafCountCollections imp) isCStr isCls l field")
  note e1 = leafBranchBufferSize_eq [OF lb]
  have cs: "isCStr \<Longrightarrow> colls = fLeafCountCollections imp"
    using lb by (simp add: leafBranchBufferSize_def)
  define imp1 where "imp1 = (if isCStr
                          then imp\<lparr>fImportTransformations := fImportTransformations imp @
                                 [RCStringTransformation (length (fImportBranches imp))
                                    (length (fImportFields imp))]\<rparr>
                          else imp\<lparr>fLeafCountCollections := colls\<rparr>)"
  have i1: "fLeafCountCollections imp1 = colls" "fImportBranches imp1 = fImportBranches imp"
    using cs by (auto simp: imp1_def)
  have rest: "sz' = bs \<and> fImportBranches imp' = fImportBranches imp1 \<and>
           (\<forall>k'. maxLengthOf (fLeafCountCollections imp') k' = maxLengthOf (fLeafCountCollections imp1) k')"
  proof (cases "isLeafList b")
    case True
    then show ?thesis using assms no f lb
      by (auto simp: process_leaf_def Let_def imp1_def)
  next
    case False
    show ?thesis
    proof (cases "lLeafCounter l")
      case None
      then show ?thesis using assms no f lb False
        by (auto simp: process_leaf_def Let_def imp1_def split: option.splits)
    next
      case (Some k)
      then obtain s2 imp2 where a: "add_to_collection k field
           ((if isCStr then RImportField0\<lparr>fIsClass := isCls\<rparr>\<lparr>fFieldBuffer := Owned, fOwnsFieldBuffer := True\<rparr>
             else RImportField0\<lparr>fIsClass := isCls\<rparr>)\<lparr>fField := Some field\<rparr>) imp1 = (s2, imp2)"
        by (meson surj_pair)
      have "sz' = bs \<and> imp' = imp2"
        using assms no f lb False Some a
        by (simp add: process_leaf_def Let_def imp1_def)
      then show ?thesis using add_to_collection_maxLengthOf [OF a] by simp
    qed
  qed
  show ?thesis using f e1 rest i1 by auto
qed

lemma leaf_loop_size:
  assumes "leaf_loop e b isCStr isCls ls (sz, items, imp) = (Success, (sz', items', imp'))"
    and "ls \<noteq> []"
  shows "\<exists>field. Create_field e (leafFieldName b (last ls)) (leafFieldType b isCStr isCls (last ls)) = Inr field \<and>
           sz' = buffer_size_rule (fLeafCountCollections imp) isCStr isCls (last ls) field \<and>
           fImportBranches imp' = fImportBranches imp"
  using assms
proof (induction ls arbitrary: sz items imp)
  case Nil
  then show ?case by simp
next
  case (Cons l ls)
  from Cons.prems(1) obtain sz1 items1 imp1 where
    p: "process_leaf e b isCStr isCls (sz, items, imp) l = (Success, (sz1, items1, imp1))"
    and r: "leaf_loop e b isCStr isCls ls (sz1, items1, imp1) = (Success, (sz', items', imp'))"
    by (auto split: prod.splits status.splits)
  note ps = process_leaf_size [OF p]
  show ?case
  proof (cases ls)
    case Nil
    then show ?thesis using ps r by auto
  next
    case (Cons l2 ls2)
    then have ne: "ls \<noteq> []" by simp
    from ps have eq: "buffer_size_rule (fLeafCountCollections imp1) isCStr isCls (last ls) =
                      buffer_size_rule (fLeafCountCollections imp) isCStr isCls (last ls)"
      by (intro ext buffer_size_rule_cong) auto
    from ps have br: "fImportBranches imp1 = fImportBranches imp" by auto
    from Cons.IH [OF r ne] obtain field where
      "Create_field e (leafFieldName b (last ls)) (leafFieldType b isCStr isCls (last ls)) = Inr field"
      "sz' = buffer_size_rule (fLeafCountCollections imp1) isCStr isCls (last ls) field"
      "fImportBranches imp' = fImportBranches imp1"
      by auto
    then show ?thesis using ne eq br by auto
  qed
qed


lemma add_record_field_branches:
  "add_record_field e b items imp = (s, imp') \<Longrightarrow>
     fImportBranches imp' = fImportBranches imp \<and>
     fLeafCountCollections imp' = fLeafCountCollections imp"
  by (auto simp: add_record_field_def Let_def split: if_splits option.splits)

lemma finish_branch_branches:
  "finish_branch e b isCls sz imp = (Success, imp') \<Longrightarrow>
     fImportBranches imp' = fImportBranches imp @ [\<lparr>fBranchName = bName b, fBranchBuffer = sz\<rparr>]"
  by (auto simp: finish_branch_def Let_def split: if_splits)

text \<open>
  C7 (amended): a branch whose first leaf is a count leaf gets no import branch. Every
  other branch that is processed successfully gets exactly one, whose read buffer has the
  size given by the leaf processed last: the leaf's \<open>GetMaximum()\<close> for a C string, the
  pointer width times the leaf's count value for a class leaf, the maximum length of the
  count leaf's collection (as known when the branch is reached) times the value size of
  the field for a leaf count array, and the leaf's offset plus the value size of the
  field otherwise. All products and sums are those of \<open>std::size_t\<close>.
\<close>

theorem branch_buffer_size:
  assumes "process_branch e imp b = (Success, imp')"
    and "bLeaves b = firstLeaf # rest"
  shows "if isCountLeaf firstLeaf then fImportBranches imp' = fImportBranches imp
         else (\<exists>field.
           Create_field e (leafFieldName b (last (bLeaves b)))
             (leafFieldType b (isCString b firstLeaf) (isClass firstLeaf) (last (bLeaves b))) = Inr field \<and>
           fImportBranches imp' = fImportBranches imp @
             [\<lparr>fBranchName = bName b,
               fBranchBuffer =
                 (if isCString b firstLeaf then size_t_of_int (lMaximum (last (bLeaves b)))
                  else if isClass firstLeaf
                    then size_t_mul sizeof_ptr (size_t_of_int (lCountval (last (bLeaves b))))
                  else (case lLeafCounter (last (bLeaves b)) of
                          Some k \<Rightarrow>
                            size_t_mul (size_t_of_int (maxLengthOf (fLeafCountCollections imp) k))
                              (fldValueSize field)
                        | None \<Rightarrow>
                            size_t_add (size_t_of_int (lOffset (last (bLeaves b))))
                              (fldValueSize field)))\<rparr>])"
proof (cases "isCountLeaf firstLeaf")
  case True
  then show ?thesis using assms
    by (auto simp: process_branch_def Let_def split: if_splits)
next
  case False
  from assms False obtain sz items imp1 imp2 where
    ll: "leaf_loop e b (isCString b firstLeaf) (isClass firstLeaf) (bLeaves b) (0, [], imp) =
           (Success, (sz, items, imp1))"
    and ar: "add_record_field e b items imp1 = (Success, imp2)"
    and fb: "finish_branch e b (isClass firstLeaf) sz imp2 = (Success, imp')"
    by (auto simp: process_branch_def split: if_splits prod.splits status.splits)
  have ne: "bLeaves b \<noteq> []" using assms(2) by simp
  from leaf_loop_size [OF ll ne] obtain field where
    f: "Create_field e (leafFieldName b (last (bLeaves b)))
          (leafFieldType b (isCString b firstLeaf) (isClass firstLeaf) (last (bLeaves b))) = Inr field"
    and sz: "sz = buffer_size_rule (fLeafCountCollections imp) (isCString b firstLeaf) (isClass firstLeaf)
                    (last (bLeaves b)) field"
    and br: "fImportBranches imp1 = fImportBranches imp"
    by auto
  have "fImportBranches imp' = fImportBranches imp @ [\<lparr>fBranchName = bName b, fBranchBuffer = sz\<rparr>]"
    using finish_branch_branches [OF fb] add_record_field_branches [OF ar] br by simp
  then show ?thesis using False f sz
    by (auto simp: buffer_size_rule_def)
qed

lemmas example_defs = branch_n_def branch_a_def branch_s_def leaf_s_def leaf0_def env0_def tree_na_def tree_s_def
  importer_of_def importer_n_def file0_def count_by_index_def

lemmas schema_defs = process_branch_def process_leaf_def add_to_collection_def add_record_field_def
  finish_branch_def leafBranchBufferSize_def leafFieldName_def leafFieldType_def
  isLeafList_def GetNleaves_def isClass_def isCountLeaf_def isCString_def
  isFixedSizeArray_def subscript_def emplace_def
  RImportLeafCountCollection0_def RImportField0_def ResetSchema_def RNTupleImporter0_def CreateBare_def AddField_def
  size_t_of_int_def size_t_mul_def size_t_add_def sizeof_ptr_def

theorem branch_buffer_size_witness:
  "fst (process_branch env0 importer_n branch_a) = Success \<and>
   fImportBranches (snd (process_branch env0 importer_n branch_a)) =
     [\<lparr>fBranchName = ''a'', fBranchBuffer = 8\<rparr>]"
proof -
  have s: "fst (process_branch env0 importer_n branch_a) = Success"
    by (simp add: schema_defs example_defs)
  then have p: "process_branch env0 importer_n branch_a =
                  (Success, snd (process_branch env0 importer_n branch_a))"
    by (metis prod.collapse)
  have l: "bLeaves branch_a = leaf0\<lparr>lName := ''a'', lLeafCounter := Some ''n''\<rparr> # []"
    by (simp add: branch_a_def)
  have c: "\<not> isCountLeaf (leaf0\<lparr>lName := ''a'', lLeafCounter := Some ''n''\<rparr>)"
       "\<not> isClass (leaf0\<lparr>lName := ''a'', lLeafCounter := Some ''n''\<rparr>)"
       "\<not> isCString branch_a (leaf0\<lparr>lName := ''a'', lLeafCounter := Some ''n''\<rparr>)"
    by (simp_all add: isCountLeaf_def isClass_def isCString_def leaf0_def)
  have f: "Create_field env0 (leafFieldName branch_a (leaf0\<lparr>lName := ''a'', lLeafCounter := Some ''n''\<rparr>))
             (leafFieldType branch_a False False (leaf0\<lparr>lName := ''a'', lLeafCounter := Some ''n''\<rparr>)) =
           Inr \<lparr>fldName = ''a'', fldType = ''std::int32_t'', fldValueSize = 4\<rparr>"
    by (simp add: schema_defs example_defs)
  have m: "maxLengthOf (fLeafCountCollections importer_n) ''n'' = 2"
          "fImportBranches importer_n = []"
    by (simp_all add: maxLengthOf_def importer_n_def ResetSchema_def RImportLeafCountCollection0_def)
  show ?thesis
    using branch_buffer_size [OF p l] s c f m
    by (auto simp: l leaf0_def branch_a_def size_t_mul_def size_t_of_int_def)
qed

text \<open>
  C7 as stated fails for C strings: the buffer of the C string branch \<open>s\<close> has the 100
  bytes of the leaf's \<open>GetMaximum()\<close>, not the leaf's offset plus the 32 bytes of the
  \<open>std::string\<close> field.
\<close>

theorem branch_buffer_cstring_counterexample:
  "isCString branch_s leaf_s \<and>
   fst (process_branch env0 (ResetSchema (importer_of tree_s)) branch_s) = Success \<and>
   fImportBranches (snd (process_branch env0 (ResetSchema (importer_of tree_s)) branch_s)) =
     [\<lparr>fBranchName = ''s'', fBranchBuffer = 100\<rparr>] \<and>
   Create_field env0 ''s'' ''std::string'' =
     Inr \<lparr>fldName = ''s'', fldType = ''std::string'', fldValueSize = 32\<rparr> \<and>
   fBranchBuffer (last (fImportBranches
      (snd (process_branch env0 (ResetSchema (importer_of tree_s)) branch_s)))) \<noteq>
     size_t_add (size_t_of_int (lOffset leaf_s)) 32"
  by (simp add: schema_defs example_defs)

subsection \<open>The events of one record\<close>

lemma Transform_cases:
  "Transform brs flds t = (s, t', evs) \<Longrightarrow>
     (s = Undefined \<and> t' = t \<and> evs = []) \<or>
     (s = Success \<and> (\<exists>b f. t = RCStringTransformation b f \<and> t' = t \<and> evs = [EvReadCString b f])) \<or>
     (s = Success \<and> (\<exists>b f n fld. t = RLeafArrayTransformation b f n \<and>
        b < length brs \<and> f < length flds \<and> fField (flds ! f) = Some fld \<and>
        t' = RLeafArrayTransformation b f (n + 1) \<and>
        evs = [EvReadArrayElement b f (size_t_mul n (fldValueSize fld)) (fldValueSize fld)]))"
  by (cases t) (auto simp: Transform_def Let_def split: if_splits option.splits)

lemma Transform_inner:
  "Transform brs flds t = (s, t', evs) \<Longrightarrow> list_all is_inner evs \<and> (\<forall>k. EvCollectionFill k \<notin> set evs)"
  by (drule Transform_cases) auto

lemma Transform_status:
  "Transform brs flds t = (s, t', evs) \<Longrightarrow> s = Success \<or> s = Undefined"
  by (drule Transform_cases) auto

lemma transform_all_inner:
  "transform_all brs flds ts = (s, ts', evs) \<Longrightarrow>
     list_all is_inner evs \<and> (\<forall>k. EvCollectionFill k \<notin> set evs) \<and> (s = Success \<or> s = Undefined)"
proof (induction ts arbitrary: s ts' evs)
  case Nil
  then show ?case by simp
next
  case (Cons t ts)
  obtain s1 t1 evs1 where t: "Transform brs flds t = (s1, t1, evs1)"
    by (metis prod_cases3)
  obtain s2 ts2 evs2 where r: "transform_all brs flds ts = (s2, ts2, evs2)"
    by (metis prod_cases3)
  from Cons.prems t r Transform_inner [OF t] Transform_status [OF t] Cons.IH [OF r]
  show ?case by (auto split: status.splits)
qed

lemma transform_top_inner:
  "transform_top brs flds ts = (s, ts', evs) \<Longrightarrow>
     list_all is_inner evs \<and> (\<forall>k. EvCollectionFill k \<notin> set evs) \<and> (s = Success \<or> s = Undefined)"
proof (induction ts arbitrary: s ts' evs)
  case Nil
  then show ?case by simp
next
  case (Cons t ts)
  obtain s1 t1 evs1 where t: "Transform brs flds t = (s1, t1, evs1)"
    by (metis prod_cases3)
  obtain s2 ts2 evs2 where r: "transform_top brs flds ts = (s2, ts2, evs2)"
    by (metis prod_cases3)
  from Cons.prems t r Transform_inner [OF t] Transform_status [OF t] Cons.IH [OF r]
  show ?case by (auto split: status.splits)
qed

lemma element_loop_inner:
  "element_loop brs flds k l n c = (s, c', evs) \<Longrightarrow>
     list_all is_inner evs \<and> (\<forall>k'. k' \<noteq> k \<longrightarrow> EvCollectionFill k' \<notin> set evs) \<and>
     (s = Success \<or> s = Undefined)"
proof (induction brs flds k l n c arbitrary: s c' evs rule: element_loop.induct)
  case (1 brs flds k l n c)
  show ?case
  proof (cases "l < n")
    case False
    then show ?thesis using "1.prems" by (simp add: element_loop.simps)
  next
    case True
    obtain s1 ts1 evs1 where t: "transform_all brs flds (fTransformations c) = (s1, ts1, evs1)"
      by (metis prod_cases3)
    note ti = transform_all_inner [OF t]
    show ?thesis
    proof (cases "s1 = Success")
      case False
      then show ?thesis using "1.prems" True t ti
        by (auto simp: element_loop.simps [of brs flds k l n c] split: status.splits)
    next
      case s1: True
      show ?thesis
      proof (cases "fCollectionWriter c")
        case None
        then show ?thesis using "1.prems" True t ti s1
          by (auto simp: element_loop.simps [of brs flds k l n c])
      next
        case (Some off)
        obtain s2 c2 evs2 where r: "element_loop brs flds k (l + 1) n
            (c\<lparr>fTransformations := ts1, fCollectionWriter := Some (off + 1)\<rparr>) = (s2, c2, evs2)"
          by (metis prod_cases3)
        from "1.IH" [OF True t [symmetric] s1 refl Some r]
        have "list_all is_inner evs2 \<and> (\<forall>k'. k' \<noteq> k \<longrightarrow> EvCollectionFill k' \<notin> set evs2) \<and>
              (s2 = Success \<or> s2 = Undefined)"
          by simp
        then show ?thesis using "1.prems" True t ti s1 Some r
          by (auto simp: element_loop.simps [of brs flds k l n c])
      qed
    qed
  qed
qed

lemma fill_collection_inner:
  assumes "fill_collection brs flds tree i k c = (s, c', evs)"
  shows "list_all is_inner evs \<and> (\<forall>k'. k' \<noteq> k \<longrightarrow> EvCollectionFill k' \<notin> set evs) \<and>
     (s = Success \<or> s = Undefined)"
proof (cases "fCountVal c")
  case None
  then show ?thesis using assms by (simp add: fill_collection_def)
next
  case (Some bn)
  obtain s1 c1 evs1 where r: "element_loop brs flds k 0 (tCountValue tree i bn) c = (s1, c1, evs1)"
    by (metis prod_cases3)
  from element_loop_inner [OF r] assms Some r show ?thesis
    by (auto simp: fill_collection_def split: status.splits)
qed

lemma fill_collection_zero:
  assumes "fCountVal c = Some bn" and "tCountValue tree i bn \<le> 0"
  shows "fill_collection brs flds tree i k c =
           (Success, c\<lparr>fTransformations := map ResetEntry (fTransformations c)\<rparr>, [])"
  using assms by (simp add: fill_collection_def element_loop.simps)


lemma element_loop_count:
  "element_loop brs flds k l n c = (Success, c', evs) \<Longrightarrow>
     count_list evs (EvCollectionFill k) = nat (n - l) \<and>
     fCollectionWriter c' = map_option (\<lambda>off. off + nat (n - l)) (fCollectionWriter c)"
proof (induction brs flds k l n c arbitrary: c' evs rule: element_loop.induct)
  case (1 brs flds k l n c)
  show ?case
  proof (cases "l < n")
    case False
    then show ?thesis using "1.prems" by (simp add: element_loop.simps option.map_ident)
  next
    case True
    obtain s1 ts1 evs1 where t: "transform_all brs flds (fTransformations c) = (s1, ts1, evs1)"
      by (metis prod_cases3)
    note ti = transform_all_inner [OF t]
    have s1: "s1 = Success"
      using "1.prems" True t by (auto simp: element_loop.simps [of brs flds k l n c] split: status.splits)
    obtain off where off: "fCollectionWriter c = Some off"
      using "1.prems" True t s1
      by (cases "fCollectionWriter c") (auto simp: element_loop.simps [of brs flds k l n c])
    obtain s2 c2 evs2 where r: "element_loop brs flds k (l + 1) n
            (c\<lparr>fTransformations := ts1, fCollectionWriter := Some (off + 1)\<rparr>) = (s2, c2, evs2)"
      by (metis prod_cases3)
    have res: "s2 = Success" "c' = c2" "evs = evs1 @ EvCollectionFill k # evs2"
      using "1.prems" True t s1 off r
      by (auto simp: element_loop.simps [of brs flds k l n c])
    from "1.IH" [OF True t [symmetric] s1 refl off] r res
    have ih: "count_list evs2 (EvCollectionFill k) = nat (n - (l + 1))"
             "fCollectionWriter c2 = Some (off + 1 + nat (n - (l + 1)))"
      by auto
    have c1: "count_list evs1 (EvCollectionFill k) = 0"
      using ti by (simp add: count_list_0_iff)
    have ar: "nat (n - l) = Suc (nat (n - (l + 1)))" using True by linarith
    show ?thesis using res ih c1 off ar by simp
  qed
qed

lemma fill_collection_count:
  assumes "fill_collection brs flds tree i k c = (Success, c', evs)"
  shows "\<exists>bn. fCountVal c = Some bn \<and>
           count_list evs (EvCollectionFill k) = nat (tCountValue tree i bn) \<and>
           fCollectionWriter c' = map_option (\<lambda>off. off + nat (tCountValue tree i bn)) (fCollectionWriter c)"
proof (cases "fCountVal c")
  case None
  then show ?thesis using assms by (simp add: fill_collection_def)
next
  case (Some bn)
  obtain s1 c1 evs1 where r: "element_loop brs flds k 0 (tCountValue tree i bn) c = (s1, c1, evs1)"
    by (metis prod_cases3)
  have "s1 = Success" "evs = evs1" "fCollectionWriter c' = fCollectionWriter c1"
    using assms Some r by (auto simp: fill_collection_def split: status.splits)
  then show ?thesis using element_loop_count [of brs flds k 0 "tCountValue tree i bn" c c1 evs1] r Some
    by simp
qed

lemma fill_collections_inner:
  "fill_collections brs flds tree i cs = (s, cs', evs) \<Longrightarrow>
     list_all is_inner evs \<and> (s = Success \<or> s = Undefined) \<and> map fst cs' = map fst cs \<and>
     (\<forall>k. k \<notin> fst ` set cs \<longrightarrow> EvCollectionFill k \<notin> set evs)"
proof (induction cs arbitrary: s cs' evs)
  case Nil
  then show ?case by simp
next
  case (Cons kc cs)
  obtain k c where kc: "kc = (k, c)" by (cases kc)
  obtain s1 c1 evs1 where f: "fill_collection brs flds tree i k c = (s1, c1, evs1)"
    by (metis prod_cases3)
  obtain s2 cs2 evs2 where r: "fill_collections brs flds tree i cs = (s2, cs2, evs2)"
    by (metis prod_cases3)
  from Cons.prems kc f r fill_collection_inner [OF f] Cons.IH [OF r]
  show ?case by (auto split: status.splits)
qed

lemma fill_collections_count:
  assumes "fill_collections brs flds tree i cs = (Success, cs', evs)"
    and "distinct (map fst cs)" and "(k, c) \<in> set cs"
  shows "\<exists>bn c' evk. fCountVal c = Some bn \<and>
           fill_collection brs flds tree i k c = (Success, c', evk) \<and>
           count_list evs (EvCollectionFill k) = nat (tCountValue tree i bn) \<and>
           map_of cs' k = Some c'"
  using assms
proof (induction cs arbitrary: cs' evs)
  case Nil
  then show ?case by simp
next
  case (Cons kc cs)
  obtain k0 c0 where kc: "kc = (k0, c0)" by (cases kc)
  obtain s1 c1 evs1 where f: "fill_collection brs flds tree i k0 c0 = (s1, c1, evs1)"
    by (metis prod_cases3)
  obtain s2 cs2 evs2 where r: "fill_collections brs flds tree i cs = (s2, cs2, evs2)"
    by (metis prod_cases3)
  have res: "s1 = Success" "s2 = Success" "cs' = (k0, c1) # cs2" "evs = evs1 @ evs2"
    using Cons.prems(1) kc f r by (auto split: status.splits)
  have d: "k0 \<notin> fst ` set cs" "distinct (map fst cs)"
    using Cons.prems(2) kc by auto
  show ?case
  proof (cases "(k, c) = (k0, c0)")
    case True
    from fill_collection_count [of brs flds tree i k0 c0 c1 evs1] f res
    obtain bn where bn: "fCountVal c0 = Some bn"
        "count_list evs1 (EvCollectionFill k0) = nat (tCountValue tree i bn)"
      by auto
    have "count_list evs2 (EvCollectionFill k0) = 0"
      using fill_collections_inner [OF r] d by (simp add: count_list_0_iff)
    then show ?thesis using True bn f res by auto
  next
    case False
    then have mem: "(k, c) \<in> set cs" using Cons.prems(3) kc by auto
    then have ne: "k \<noteq> k0" using d by force
    from Cons.IH [of cs2 evs2] r res d mem
    obtain bn c' evk where ih: "fCountVal c = Some bn"
        "fill_collection brs flds tree i k c = (Success, c', evk)"
        "count_list evs2 (EvCollectionFill k) = nat (tCountValue tree i bn)"
        "map_of cs2 k = Some c'"
      by auto
    have "count_list evs1 (EvCollectionFill k) = 0"
      using fill_collection_inner [OF f] ne by (simp add: count_list_0_iff)
    then show ?thesis using ih res ne by auto
  qed
qed

lemma Call_events:
  "Call next nbytes nevents = (next', printed) \<Longrightarrow>
     list_all is_progress printed"
  by (auto simp: Call_def split: if_splits)

lemma import_entry_Success:
  assumes "import_entry e tree i (imp, n) = (Success, (imp', n'), evs)"
  shows "\<exists>colls evs1 ts evs2 en post.
           fill_collections (fImportBranches imp) (fImportFields imp) tree i (fLeafCountCollections imp) =
             (Success, colls, evs1) \<and>
           transform_top (fImportBranches imp) (fImportFields imp) (fImportTransformations imp) =
             (Success, ts, evs2) \<and>
           fEntry imp = Some en \<and>
           evs = EvGetEntry i # (evs1 @ evs2) @ EvFill (captured_offsets colls en) # post \<and>
           list_all is_progress post \<and>
           (fProgressCallback imp = None \<longrightarrow> post = []) \<and>
           (\<forall>next. fProgressCallback imp = Some next \<longrightarrow>
              post = EvCall (size_t_of_int (szWritePayload e (n + 1))) (size_t_of_int i) #
                     snd (Call next (size_t_of_int (szWritePayload e (n + 1))) (size_t_of_int i))) \<and>
           n' = n + 1 \<and> fLeafCountCollections imp' = colls \<and>
           fImportBranches imp' = fImportBranches imp \<and> fImportFields imp' = fImportFields imp \<and>
           fEntry imp' = fEntry imp \<and> fImportTransformations imp' = ts \<and>
           (fProgressCallback imp' = None \<longleftrightarrow> fProgressCallback imp = None)"
proof -
  obtain s1 colls evs1 where f: "fill_collections (fImportBranches imp) (fImportFields imp) tree i
      (fLeafCountCollections imp) = (s1, colls, evs1)"
    by (metis prod_cases3)
  obtain s2 ts evs2 where t: "transform_top (fImportBranches imp) (fImportFields imp)
      (fImportTransformations imp) = (s2, ts, evs2)"
    by (metis prod_cases3)
  have s1: "s1 = Success" using assms f by (auto simp: import_entry_def split: status.splits)
  have s2: "s2 = Success" using assms f t s1
    by (auto simp: import_entry_def Let_def split: status.splits)
  obtain en where en: "fEntry imp = Some en" using assms f t s1 s2
    by (cases "fEntry imp") (auto simp: import_entry_def Let_def)
  show ?thesis
  proof (cases "fProgressCallback imp")
    case None
    then show ?thesis using assms f t s1 s2 en
      by (auto simp: import_entry_def Let_def)
  next
    case (Some nxt)
    obtain nxt' printed where c: "Call nxt (size_t_of_int (szWritePayload e (n + 1))) (size_t_of_int i) = (nxt', printed)"
      by (metis surj_pair)
    show ?thesis using assms f t s1 s2 en Some c Call_events [OF c]
      by (auto simp: import_entry_def Let_def)
  qed
qed

lemma import_entry_not_Success:
  assumes "import_entry e tree i (imp, n) = (s, (imp', n'), evs)" and "s \<noteq> Success"
  shows "\<not> list_ex is_fill evs \<and> s = Undefined"
proof -
  obtain s1 colls evs1 where f: "fill_collections (fImportBranches imp) (fImportFields imp) tree i
      (fLeafCountCollections imp) = (s1, colls, evs1)"
    by (metis prod_cases3)
  obtain s2 ts evs2 where t: "transform_top (fImportBranches imp) (fImportFields imp)
      (fImportTransformations imp) = (s2, ts, evs2)"
    by (metis prod_cases3)
  note fi = fill_collections_inner [OF f]
  note ti = transform_top_inner [OF t]
  have nf: "\<And>evs. list_all is_inner evs \<Longrightarrow> \<not> list_ex is_fill evs"
  proof -
    fix evs show "list_all is_inner evs \<Longrightarrow> \<not> list_ex is_fill evs"
      by (induction evs) (auto elim: is_inner.elims)
  qed
  show ?thesis
    using assms f t fi ti nf [of evs1] nf [of evs2]
    by (auto simp: import_entry_def Let_def list_ex_iff split: status.splits option.splits prod.splits)
qed


lemmas prepare_defs = PrepareSchema_def prepare_collection_def finish_schema_def to_string_def
  string_of_nat.simps digit_char_def


lemmas loop_defs = import_entry_def fill_collection_def element_loop.simps Transform_def Call_def
  gUpdateFrequencyBytes_def

text \<open>
  C5: when the count leaf of a collection reads 0 for a record, the loop body for that
  collection runs no transformation and fills no sub-collection record (it produces no
  event at all and only resets the transformations); the events of the whole record
  contain no sub-collection record of that collection; and the offset counter of the
  collection writer is unchanged, so that the projected sequence of the collection for
  that record has length 0.
\<close>

theorem zero_count_record:
  assumes "import_entry e tree i (imp, n) = (Success, (imp', n'), evs)"
    and "distinct (map fst (fLeafCountCollections imp))"
    and "(k, c) \<in> set (fLeafCountCollections imp)"
    and "fCountVal c = Some countBranch" and "tCountValue tree i countBranch = 0"
  shows "fill_collection (fImportBranches imp) (fImportFields imp) tree i k c =
           (Success, c\<lparr>fTransformations := map ResetEntry (fTransformations c)\<rparr>, []) \<and>
         count_list evs (EvCollectionFill k) = 0 \<and>
         (\<exists>c'. map_of (fLeafCountCollections imp') k = Some c' \<and>
               fCollectionWriter c' = fCollectionWriter c \<and> projected_length c c' = 0)"
proof -
  have z: "fill_collection (fImportBranches imp) (fImportFields imp) tree i k c =
           (Success, c\<lparr>fTransformations := map ResetEntry (fTransformations c)\<rparr>, [])"
    using fill_collection_zero [of c countBranch tree i] assms(4,5) by simp
  from import_entry_Success [OF assms(1)] obtain colls evs1 ts evs2 en post where
    f: "fill_collections (fImportBranches imp) (fImportFields imp) tree i (fLeafCountCollections imp) =
             (Success, colls, evs1)"
    and t: "transform_top (fImportBranches imp) (fImportFields imp) (fImportTransformations imp) =
             (Success, ts, evs2)"
    and evs: "evs = EvGetEntry i # (evs1 @ evs2) @ EvFill (captured_offsets colls en) # post"
    and post: "list_all is_progress post"
    and colls: "fLeafCountCollections imp' = colls"
    by blast
  from fill_collections_count [OF f assms(2,3)] z assms(4,5)
  have c1: "count_list evs1 (EvCollectionFill k) = 0"
    and m: "map_of colls k = Some (c\<lparr>fTransformations := map ResetEntry (fTransformations c)\<rparr>)"
    by auto
  have c2: "count_list evs2 (EvCollectionFill k) = 0"
    using transform_top_inner [OF t] by (simp add: count_list_0_iff)
  have "EvCollectionFill k \<notin> set post"
    using post by (auto simp: list_all_iff)
  then have c3: "count_list post (EvCollectionFill k) = 0"
    by (simp add: count_list_0_iff)
  have p: "projected_length c (c\<lparr>fTransformations := map ResetEntry (fTransformations c)\<rparr>) = 0"
    by (simp add: projected_length_def split: option.splits)
  show ?thesis using z c1 c2 c3 evs m colls p by simp
qed

theorem zero_count_record_witness:
  "import_entry env0 tree_na 0 (prepared_na, 0) =
     (Success, (prepared_na, 1), [EvGetEntry 0, EvFill [(''_collection0'', 0)]]) \<and>
   tCountValue tree_na 0 ''n'' = 0 \<and>
   count_list [EvGetEntry 0, EvFill [(''_collection0'', 0)]] (EvCollectionFill ''n'') = 0 \<and>
   (\<exists>c'. map_of (fLeafCountCollections prepared_na) ''n'' = Some c' \<and>
         fCollectionWriter c' = Some 0)"
proof -
  let ?c = "\<lparr>fCollectionModel = None, fCollectionWriter = Some 0,
             fCollectionEntry = Some [(''a'', Owned)], fCountVal = Some ''n'',
             fImportFieldIndexes = [0], fTransformations = [RLeafArrayTransformation 0 0 0],
             fMaxLength = 2, fFieldName = ''_collection0''\<rparr>"
  have e: "import_entry env0 tree_na 0 (prepared_na, 0) =
     (Success, (prepared_na, 1), [EvGetEntry 0, EvFill [(''_collection0'', 0)]])"
    by (simp add: loop_defs prepared_na_def field_a_def example_defs size_t_of_int_def size_t_mul_def
        RNTupleImporter0_def)
  have d: "distinct (map fst (fLeafCountCollections prepared_na))"
    by (simp add: prepared_na_def)
  have m: "(''n'', ?c) \<in> set (fLeafCountCollections prepared_na)"
    by (simp add: prepared_na_def)
  have v: "fCountVal ?c = Some ''n''" by simp
  have z: "tCountValue tree_na 0 ''n'' = 0"
    by (simp add: tree_na_def count_by_index_def)
  show ?thesis
    using zero_count_record [OF e d m v z] e z by auto
qed

text \<open>
  The events of the loops over the collections and over the top-level transformations,
  when they succeed, are exactly the runs and the sub-collection records of
  \<open>record_emission\<close> and \<open>transformation_run\<close>.
\<close>

lemma Transform_run:
  assumes "Transform brs flds t = (Success, t', evs)"
  shows "evs = transformation_run flds 0 t \<and>
         (\<forall>l. transformation_run flds l t' = transformation_run flds (Suc l) t)"
  using Transform_cases [OF assms] by auto

lemma transform_all_run:
  "transform_all brs flds ts = (Success, ts', evs) \<Longrightarrow>
     evs = concat (map (transformation_run flds 0) ts) \<and>
     (\<forall>l. concat (map (transformation_run flds l) ts') =
          concat (map (transformation_run flds (Suc l)) ts))"
proof (induction ts arbitrary: ts' evs)
  case Nil
  then show ?case by simp
next
  case (Cons t ts)
  obtain s1 t1 evs1 where t: "Transform brs flds t = (s1, t1, evs1)"
    by (metis prod_cases3)
  obtain s2 ts2 evs2 where r: "transform_all brs flds ts = (s2, ts2, evs2)"
    by (metis prod_cases3)
  have res: "s1 = Success" "s2 = Success" "ts' = t1 # ts2" "evs = evs1 @ evs2"
    using Cons.prems t r by (auto split: status.splits)
  from Transform_run [OF t [unfolded res(1)]] Cons.IH [OF r [unfolded res(2)]] res
  show ?case by simp
qed

lemma transform_top_run:
  "transform_top brs flds ts = (Success, ts', evs) \<Longrightarrow>
     evs = concat (map (transformation_run flds 0) ts)"
proof (induction ts arbitrary: ts' evs)
  case Nil
  then show ?case by simp
next
  case (Cons t ts)
  obtain s1 t1 evs1 where t: "Transform brs flds t = (s1, t1, evs1)"
    by (metis prod_cases3)
  obtain s2 ts2 evs2 where r: "transform_top brs flds ts = (s2, ts2, evs2)"
    by (metis prod_cases3)
  have res: "s1 = Success" "s2 = Success" "evs = evs1 @ evs2"
    using Cons.prems t r by (auto split: status.splits)
  from Transform_run [OF t [unfolded res(1)]] Cons.IH [OF r [unfolded res(2)]] res
  show ?case by simp
qed

lemma element_emission_shift:
  assumes "\<forall>l. concat (map (transformation_run flds l) ts') =
             concat (map (transformation_run flds (Suc l)) ts)"
  shows "element_emission flds k ts' l = element_emission flds k ts (Suc l)"
  using assms by (simp add: element_emission_def)

lemma upt_nat_step:
  assumes "l < (n :: int)"
  shows "[0..<nat (n - l)] = 0 # map Suc [0..<nat (n - (l + 1))]"
proof -
  have "nat (n - l) = Suc (nat (n - (l + 1)))" using assms by linarith
  then show ?thesis by (simp add: upt_conv_Cons map_Suc_upt del: upt_Suc)
qed

lemma element_loop_run:
  "element_loop brs flds k l n c = (Success, c', evs) \<Longrightarrow>
     evs = concat (map (element_emission flds k (fTransformations c)) [0..<nat (n - l)])"
proof (induction brs flds k l n c arbitrary: c' evs rule: element_loop.induct)
  case (1 brs flds k l n c)
  show ?case
  proof (cases "l < n")
    case False
    then show ?thesis using "1.prems" by (simp add: element_loop.simps)
  next
    case True
    obtain s1 ts1 evs1 where t: "transform_all brs flds (fTransformations c) = (s1, ts1, evs1)"
      by (metis prod_cases3)
    have s1: "s1 = Success"
      using "1.prems" True t by (auto simp: element_loop.simps [of brs flds k l n c] split: status.splits)
    obtain off where off: "fCollectionWriter c = Some off"
      using "1.prems" True t s1
      by (cases "fCollectionWriter c") (auto simp: element_loop.simps [of brs flds k l n c])
    obtain s2 c2 evs2 where r: "element_loop brs flds k (l + 1) n
            (c\<lparr>fTransformations := ts1, fCollectionWriter := Some (off + 1)\<rparr>) = (s2, c2, evs2)"
      by (metis prod_cases3)
    have res: "s2 = Success" "evs = evs1 @ EvCollectionFill k # evs2"
      using "1.prems" True t s1 off r
      by (auto simp: element_loop.simps [of brs flds k l n c])
    note tr = transform_all_run [OF t [unfolded s1]]
    from "1.IH" [OF True t [symmetric] s1 refl off] r res
    have ih: "evs2 = concat (map (element_emission flds k ts1) [0..<nat (n - (l + 1))])"
      by simp
    have sh: "element_emission flds k ts1 j = element_emission flds k (fTransformations c) (Suc j)" for j
      using tr by (simp add: element_emission_shift)
    have first: "evs1 @ [EvCollectionFill k] = element_emission flds k (fTransformations c) 0"
      using tr by (simp add: element_emission_def)
    have "evs = element_emission flds k (fTransformations c) 0 @
            concat (map (element_emission flds k ts1) [0..<nat (n - (l + 1))])"
      using res ih first [symmetric] by simp
    also have "\<dots> = concat (map (element_emission flds k (fTransformations c))
                        (0 # map Suc [0..<nat (n - (l + 1))]))"
    proof -
      have "element_emission flds k ts1 = (\<lambda>j. element_emission flds k (fTransformations c) (Suc j))"
        by (rule ext) (rule sh)
      then show ?thesis by (simp add: comp_def)
    qed
    finally show ?thesis by (simp only: upt_nat_step [OF True])
  qed
qed

lemma fill_collection_run:
  assumes "fill_collection brs flds tree i k c = (Success, c', evs)"
  shows "evs = collection_emission flds tree i k c"
proof (cases "fCountVal c")
  case None
  then show ?thesis using assms by (simp add: fill_collection_def)
next
  case (Some bn)
  obtain s1 c1 evs1 where r: "element_loop brs flds k 0 (tCountValue tree i bn) c = (s1, c1, evs1)"
    by (metis prod_cases3)
  have "s1 = Success" "evs = evs1"
    using assms Some r by (auto simp: fill_collection_def split: status.splits)
  then show ?thesis using element_loop_run [of brs flds k 0 "tCountValue tree i bn" c c1 evs1] r Some
    by (simp add: collection_emission_def)
qed

lemma fill_collections_run:
  "fill_collections brs flds tree i cs = (Success, cs', evs) \<Longrightarrow>
     evs = record_emission flds tree i cs"
proof (induction cs arbitrary: cs' evs)
  case Nil
  then show ?case by (simp add: record_emission_def)
next
  case (Cons kc cs)
  obtain k c where kc: "kc = (k, c)" by (cases kc)
  obtain s1 c1 evs1 where f: "fill_collection brs flds tree i k c = (s1, c1, evs1)"
    by (metis prod_cases3)
  obtain s2 cs2 evs2 where r: "fill_collections brs flds tree i cs = (s2, cs2, evs2)"
    by (metis prod_cases3)
  have res: "s1 = Success" "s2 = Success" "evs = evs1 @ evs2"
    using Cons.prems kc f r by (auto split: status.splits)
  from fill_collection_run [OF f [unfolded res(1)]] Cons.IH [OF r [unfolded res(2)]] res kc
  show ?case by (simp add: record_emission_def)
qed

text \<open>
  C8: the events of one record are: the read of the entry; then, for every collection in
  turn and for every element \<open>0, ..., count - 1\<close> of it in turn, where \<open>count\<close> is what
  its count leaf reads for this entry, one run of each transformation of the collection
  followed by the sub-collection record submitted to the collection writer
  (\<open>record_emission\<close>), and after them the runs of the top-level transformations; only
  then the fill of the top-level record, which captures the offsets of the collections as
  they are after these loops; then progress notifications only. Every collection has
  emitted as many sub-collection records as its count leaf reads before the top-level
  record is filled. A record that is not processed successfully is not filled at all.
\<close>

theorem sub_collection_before_outer_fill:
  assumes "import_entry e tree i (imp, n) = (s, (imp', n'), evs)"
    and "distinct (map fst (fLeafCountCollections imp))"
  shows "if s = Success then
           (\<exists>pre en post. evs = EvGetEntry i # pre @ EvFill (captured_offsets (fLeafCountCollections imp') en) # post \<and>
              fEntry imp = Some en \<and>
              pre = record_emission (fImportFields imp) tree i (fLeafCountCollections imp) @
                    concat (map (transformation_run (fImportFields imp) 0) (fImportTransformations imp)) \<and>
              list_all is_inner pre \<and> list_all is_progress post \<and>
              (\<forall>(k, c) \<in> set (fLeafCountCollections imp). \<forall>countBranch. fCountVal c = Some countBranch \<longrightarrow>
                 count_list pre (EvCollectionFill k) = nat (tCountValue tree i countBranch) \<and>
                 (\<exists>c'. map_of (fLeafCountCollections imp') k = Some c' \<and>
                    fCollectionWriter c' =
                      map_option (\<lambda>off. off + nat (tCountValue tree i countBranch)) (fCollectionWriter c))))
         else \<not> list_ex is_fill evs"
proof (cases "s = Success")
  case False
  then show ?thesis using import_entry_not_Success [OF assms(1)] by simp
next
  case True
  from import_entry_Success [OF assms(1) [unfolded True]] obtain colls evs1 ts evs2 en post where
    f: "fill_collections (fImportBranches imp) (fImportFields imp) tree i (fLeafCountCollections imp) =
             (Success, colls, evs1)"
    and t: "transform_top (fImportBranches imp) (fImportFields imp) (fImportTransformations imp) =
             (Success, ts, evs2)"
    and en: "fEntry imp = Some en"
    and evs: "evs = EvGetEntry i # (evs1 @ evs2) @ EvFill (captured_offsets colls en) # post"
    and post: "list_all is_progress post"
    and colls: "fLeafCountCollections imp' = colls"
    by blast
  have inner: "list_all is_inner (evs1 @ evs2)"
    using fill_collections_inner [OF f] transform_top_inner [OF t] by simp
  have run: "evs1 @ evs2 = record_emission (fImportFields imp) tree i (fLeafCountCollections imp) @
                    concat (map (transformation_run (fImportFields imp) 0) (fImportTransformations imp))"
    using fill_collections_run [OF f] transform_top_run [OF t] by simp
  have cnt: "count_list (evs1 @ evs2) (EvCollectionFill k) = nat (tCountValue tree i bn) \<and>
             (\<exists>c'. map_of colls k = Some c' \<and>
                fCollectionWriter c' = map_option (\<lambda>off. off + nat (tCountValue tree i bn)) (fCollectionWriter c))"
    if kc: "(k, c) \<in> set (fLeafCountCollections imp)" and bn: "fCountVal c = Some bn" for k c bn
  proof -
    from fill_collections_count [OF f assms(2) kc] bn obtain c' evk where
      fc: "fill_collection (fImportBranches imp) (fImportFields imp) tree i k c = (Success, c', evk)"
      and c1: "count_list evs1 (EvCollectionFill k) = nat (tCountValue tree i bn)"
      and m: "map_of colls k = Some c'"
      by auto
    have c2: "count_list evs2 (EvCollectionFill k) = 0"
      using transform_top_inner [OF t] by (simp add: count_list_0_iff)
    from fill_collection_count [OF fc] bn
    have "fCollectionWriter c' = map_option (\<lambda>off. off + nat (tCountValue tree i bn)) (fCollectionWriter c)"
      by auto
    then show ?thesis using c1 c2 m by simp
  qed
  have "\<exists>pre en post. evs = EvGetEntry i # pre @ EvFill (captured_offsets (fLeafCountCollections imp') en) # post \<and>
              fEntry imp = Some en \<and>
              pre = record_emission (fImportFields imp) tree i (fLeafCountCollections imp) @
                    concat (map (transformation_run (fImportFields imp) 0) (fImportTransformations imp)) \<and>
              list_all is_inner pre \<and> list_all is_progress post \<and>
              (\<forall>(k, c) \<in> set (fLeafCountCollections imp). \<forall>countBranch. fCountVal c = Some countBranch \<longrightarrow>
                 count_list pre (EvCollectionFill k) = nat (tCountValue tree i countBranch) \<and>
                 (\<exists>c'. map_of (fLeafCountCollections imp') k = Some c' \<and>
                    fCollectionWriter c' =
                      map_option (\<lambda>off. off + nat (tCountValue tree i countBranch)) (fCollectionWriter c)))"
    using evs en inner post colls cnt run
    by (intro exI [of _ "evs1 @ evs2"] exI [of _ en] exI [of _ post]) auto
  then show ?thesis using True by simp
qed

theorem sub_collection_before_outer_fill_witness:
  "import_entry env0 tree_na 2 (prepared_na, 2) =
     (Success, (after_entry2, 3),
      [EvGetEntry 2, EvReadArrayElement 0 0 0 4, EvCollectionFill ''n'',
       EvReadArrayElement 0 0 4 4, EvCollectionFill ''n'', EvFill [(''_collection0'', 2)]]) \<and>
   record_emission (fImportFields prepared_na) tree_na 2 (fLeafCountCollections prepared_na) =
     [EvReadArrayElement 0 0 0 4, EvCollectionFill ''n'',
      EvReadArrayElement 0 0 4 4, EvCollectionFill ''n''] \<and>
   fImportTransformations prepared_na = [] \<and>
   (\<exists>pre en post.
      [EvGetEntry 2, EvReadArrayElement 0 0 0 4, EvCollectionFill ''n'',
       EvReadArrayElement 0 0 4 4, EvCollectionFill ''n'', EvFill [(''_collection0'', 2)]] =
        EvGetEntry 2 # pre @ EvFill (captured_offsets (fLeafCountCollections after_entry2) en) # post \<and>
      pre = [EvReadArrayElement 0 0 0 4, EvCollectionFill ''n'',
             EvReadArrayElement 0 0 4 4, EvCollectionFill ''n''] \<and>
      list_all is_inner pre \<and> count_list pre (EvCollectionFill ''n'') = 2)"
proof -
  let ?c = "\<lparr>fCollectionModel = None, fCollectionWriter = Some 0,
             fCollectionEntry = Some [(''a'', Owned)], fCountVal = Some ''n'',
             fImportFieldIndexes = [0], fTransformations = [RLeafArrayTransformation 0 0 0],
             fMaxLength = 2, fFieldName = ''_collection0''\<rparr>"
  have e: "import_entry env0 tree_na 2 (prepared_na, 2) =
     (Success, (after_entry2, 3),
      [EvGetEntry 2, EvReadArrayElement 0 0 0 4, EvCollectionFill ''n'',
       EvReadArrayElement 0 0 4 4, EvCollectionFill ''n'', EvFill [(''_collection0'', 2)]])"
    by (simp add: loop_defs prepared_na_def after_entry2_def field_a_def example_defs size_t_of_int_def
        size_t_mul_def RNTupleImporter0_def)
  have d: "distinct (map fst (fLeafCountCollections prepared_na))"
    by (simp add: prepared_na_def)
  have m: "(''n'', ?c) \<in> set (fLeafCountCollections prepared_na)"
    by (simp add: prepared_na_def)
  have v: "fCountVal ?c = Some ''n''" by simp
  have z: "nat (tCountValue tree_na 2 ''n'') = 2"
    by (simp add: tree_na_def count_by_index_def)
  have r: "record_emission (fImportFields prepared_na) tree_na 2 (fLeafCountCollections prepared_na) =
     [EvReadArrayElement 0 0 0 4, EvCollectionFill ''n'',
      EvReadArrayElement 0 0 4 4, EvCollectionFill ''n'']"
  proof -
    have u: "[0..<2] = [0, Suc 0]"
      by (simp add: upt_rec)
    show ?thesis
      by (simp add: record_emission_def collection_emission_def element_emission_def prepared_na_def
            field_a_def tree_na_def count_by_index_def size_t_mul_def u)
  qed
  have t: "fImportTransformations prepared_na = []"
    by (simp add: prepared_na_def)
  from sub_collection_before_outer_fill [OF e d] obtain pre en post where
    p: "[EvGetEntry 2, EvReadArrayElement 0 0 0 4, EvCollectionFill ''n'',
       EvReadArrayElement 0 0 4 4, EvCollectionFill ''n'', EvFill [(''_collection0'', 2)]] =
        EvGetEntry 2 # pre @ EvFill (captured_offsets (fLeafCountCollections after_entry2) en) # post"
      "pre = record_emission (fImportFields prepared_na) tree_na 2 (fLeafCountCollections prepared_na) @
             concat (map (transformation_run (fImportFields prepared_na) 0) (fImportTransformations prepared_na))"
      "list_all is_inner pre"
      "\<forall>(k, c) \<in> set (fLeafCountCollections prepared_na). \<forall>countBranch. fCountVal c = Some countBranch \<longrightarrow>
                 count_list pre (EvCollectionFill k) = nat (tCountValue tree_na 2 countBranch) \<and>
                 (\<exists>c'. map_of (fLeafCountCollections after_entry2) k = Some c' \<and>
                    fCollectionWriter c' =
                      map_option (\<lambda>off. off + nat (tCountValue tree_na 2 countBranch)) (fCollectionWriter c))"
    by auto
  from p(4) m v z have c: "count_list pre (EvCollectionFill ''n'') = 2"
    by fastforce
  have pe: "pre = [EvReadArrayElement 0 0 0 4, EvCollectionFill ''n'',
             EvReadArrayElement 0 0 4 4, EvCollectionFill ''n'']"
    using p(2) r t by simp
  have "\<exists>pre en post.
      [EvGetEntry 2, EvReadArrayElement 0 0 0 4, EvCollectionFill ''n'',
       EvReadArrayElement 0 0 4 4, EvCollectionFill ''n'', EvFill [(''_collection0'', 2)]] =
        EvGetEntry 2 # pre @ EvFill (captured_offsets (fLeafCountCollections after_entry2) en) # post \<and>
      pre = [EvReadArrayElement 0 0 0 4, EvCollectionFill ''n'',
             EvReadArrayElement 0 0 4 4, EvCollectionFill ''n''] \<and>
      list_all is_inner pre \<and> count_list pre (EvCollectionFill ''n'') = 2"
    using p(1,3) c pe by blast
  then show ?thesis using e r t by (intro conjI)
qed

subsection \<open>The number and order of the records\<close>

lemma add_to_collection_settings:
  "add_to_collection k field f imp = (s, imp') \<Longrightarrow> settings imp' = settings imp"
  by (auto simp: add_to_collection_def settings_def Let_def split: prod.splits option.splits)

lemma process_leaf_settings:
  assumes "process_leaf e b isCStr isCls (sz, items, imp) l = (s, (sz', items', imp'))"
  shows "settings imp' = settings imp"
  using assms
  by (auto simp: process_leaf_def settings_def Let_def
           split: if_splits sum.splits prod.splits option.splits
           dest!: add_to_collection_settings)

lemma leaf_loop_settings:
  "leaf_loop e b isCStr isCls ls (sz, items, imp) = (s, (sz', items', imp')) \<Longrightarrow>
     settings imp' = settings imp"
proof (induction ls arbitrary: sz items imp)
  case Nil
  then show ?case by simp
next
  case (Cons l ls)
  obtain s1 sz1 items1 imp1 where
    p: "process_leaf e b isCStr isCls (sz, items, imp) l = (s1, (sz1, items1, imp1))"
    by (metis prod_cases4)
  note ps = process_leaf_settings [OF p]
  show ?case
  proof (cases "s1 = Success")
    case True
    then show ?thesis using Cons.prems p ps Cons.IH [of sz1 items1 imp1] by simp
  next
    case False
    then show ?thesis using Cons.prems p ps by (auto split: status.splits)
  qed
qed

lemma add_record_field_settings:
  "add_record_field e b items imp = (s, imp') \<Longrightarrow> settings imp' = settings imp"
  by (auto simp: add_record_field_def settings_def Let_def split: if_splits option.splits)

lemma finish_branch_settings:
  "finish_branch e b isCls sz imp = (s, imp') \<Longrightarrow> settings imp' = settings imp"
  by (auto simp: finish_branch_def settings_def Let_def split: if_splits)

lemma process_branch_settings:
  assumes "process_branch e imp b = (s, imp')"
  shows "settings imp' = settings imp"
proof (cases "bLeaves b")
  case Nil
  then show ?thesis using assms by (simp add: process_branch_def)
next
  case (Cons firstLeaf rest)
  obtain s1 sz1 items1 imp1 where
    ll: "leaf_loop e b (isCString b firstLeaf) (isClass firstLeaf) (bLeaves b) (0, [], imp) =
           (s1, (sz1, items1, imp1))"
    by (metis prod_cases4)
  obtain s2 imp2 where ar: "add_record_field e b items1 imp1 = (s2, imp2)"
    by (metis surj_pair)
  obtain s3 imp3 where fb: "finish_branch e b (isClass firstLeaf) sz1 imp2 = (s3, imp3)"
    by (metis surj_pair)
  note a = leaf_loop_settings [OF ll] add_record_field_settings [OF ar] finish_branch_settings [OF fb]
  have c: "settings (imp\<lparr>fLeafCountCollections := x\<rparr>) = settings imp" for x
    by (simp add: settings_def)
  show ?thesis
    using assms Cons ll ar fb a c
    by (auto simp: process_branch_def Let_def split: if_splits status.splits)
qed

lemma branch_loop_settings:
  "branch_loop e bs imp = (s, imp') \<Longrightarrow> settings imp' = settings imp"
proof (induction bs arbitrary: imp)
  case Nil
  then show ?case by simp
next
  case (Cons b bs)
  obtain s1 imp1 where p: "process_branch e imp b = (s1, imp1)" by (metis surj_pair)
  note ps = process_branch_settings [OF p]
  show ?case
  proof (cases "s1 = Success")
    case True
    then show ?thesis using Cons.prems p ps Cons.IH [of imp1] by simp
  next
    case False
    then show ?thesis using Cons.prems p ps by (auto split: status.splits)
  qed
qed

lemma prepare_collection_settings:
  assumes "prepare_collection e i k c imp = (s, c', imp')"
  shows "settings imp' = settings imp"
proof -
  have c: "settings (imp\<lparr>fModel := x\<rparr>) = settings imp" for x
    by (simp add: settings_def)
  show ?thesis using assms c
    by (auto simp: prepare_collection_def Let_def
             split: option.splits prod.splits status.splits sum.splits)
qed

lemma collections_loop_settings:
  "collections_loop e i cs imp = (s, cs', imp') \<Longrightarrow> settings imp' = settings imp"
proof (induction cs arbitrary: i imp s cs' imp')
  case Nil
  then show ?case by simp
next
  case (Cons kc cs)
  obtain k c where kc: "kc = (k, c)" by (cases kc)
  obtain s1 c1 imp1 where p: "prepare_collection e i k c imp = (s1, c1, imp1)"
    by (metis prod_cases3)
  note ps = prepare_collection_settings [OF p]
  show ?case
  proof (cases "s1 = Success")
    case True
    obtain s2 cs2 imp2 where r: "collections_loop e (i + 1) cs imp1 = (s2, cs2, imp2)"
      by (metis prod_cases3)
    from Cons.prems kc p True r have "imp' = imp2" by simp
    then show ?thesis using Cons.IH [OF r] ps by simp
  next
    case False
    then show ?thesis using Cons.prems kc p ps by (auto split: status.splits)
  qed
qed

lemma finish_schema_settings:
  "finish_schema imp = (s, imp', evs) \<Longrightarrow> settings imp' = settings imp"
  by (auto simp: finish_schema_def settings_def Let_def split: option.splits if_splits)

lemma PrepareSchema_settings:
  assumes "PrepareSchema e imp = (s, imp', evs)"
  shows "settings imp' = settings imp"
proof -
  have r: "settings (ResetSchema imp) = settings imp"
    by (simp add: settings_def ResetSchema_def)
  show ?thesis
  proof (cases "fSourceTree (ResetSchema imp)")
    case None
    then show ?thesis using assms r by (simp add: PrepareSchema_def Let_def)
  next
    case (Some tree)
    obtain s1 imp1 where b: "branch_loop e (tBranches tree) (ResetSchema imp) = (s1, imp1)"
      by (metis surj_pair)
    obtain s2 colls imp2 where c: "collections_loop e 0 (fLeafCountCollections imp1) imp1 = (s2, colls, imp2)"
      by (metis prod_cases3)
    obtain s3 imp3 evs3 where f: "finish_schema (imp2\<lparr>fLeafCountCollections := colls\<rparr>) = (s3, imp3, evs3)"
      by (metis prod_cases3)
    have x: "settings (imp2\<lparr>fLeafCountCollections := colls\<rparr>) = settings imp2"
      by (simp add: settings_def)
    show ?thesis
      using assms Some b c f r x branch_loop_settings [OF b] collections_loop_settings [OF c]
        finish_schema_settings [OF f]
      by (auto simp: PrepareSchema_def Let_def split: status.splits)
  qed
qed


lemma entries_read_append: "entries_read (xs @ ys) = entries_read xs @ entries_read ys"
  by (induction xs rule: entries_read.induct) auto

lemma inner_no_entry: "list_all is_inner xs \<Longrightarrow> entries_read xs = [] \<and> filter is_fill xs = []"
  by (induction xs rule: entries_read.induct) auto

lemma progress_no_entry: "list_all is_progress xs \<Longrightarrow> entries_read xs = [] \<and> filter is_fill xs = []"
  by (induction xs rule: entries_read.induct) auto

lemma ReportSchema_no_entry:
  "ReportSchema fs = Some evs \<Longrightarrow> entries_read evs = [] \<and> filter is_fill evs = []"
  by (induction fs arbitrary: evs) (auto split: option.splits)

lemma PrepareSchema_no_entry:
  assumes "PrepareSchema e imp = (s, imp', evs)"
  shows "entries_read evs = [] \<and> filter is_fill evs = []"
proof -
  have f: "finish_schema x = (s', x', evs') \<Longrightarrow> entries_read evs' = [] \<and> filter is_fill evs' = []"
    for x s' x' evs'
    by (auto simp: finish_schema_def Let_def split: option.splits if_splits dest: ReportSchema_no_entry)
  show ?thesis using assms
    by (auto simp: PrepareSchema_def Let_def split: option.splits prod.splits status.splits dest: f)
qed

lemma import_entry_settings:
  assumes "import_entry e tree i (imp, n) = (s, (imp', n'), evs)"
  shows "settings imp' = settings imp"
  using assms
  by (auto simp: import_entry_def settings_def Let_def
           split: prod.splits status.splits option.splits)

lemma import_entry_Success_events:
  assumes "import_entry e tree i (imp, n) = (Success, (imp', n'), evs)"
  shows "entries_read evs = [i] \<and> length (filter is_fill evs) = 1 \<and> n' = n + 1 \<and>
         (fProgressCallback imp' = None \<longleftrightarrow> fProgressCallback imp = None)"
proof -
  from import_entry_Success [OF assms] obtain colls evs1 ts evs2 en post where
    f: "fill_collections (fImportBranches imp) (fImportFields imp) tree i (fLeafCountCollections imp) =
             (Success, colls, evs1)"
    and t: "transform_top (fImportBranches imp) (fImportFields imp) (fImportTransformations imp) =
             (Success, ts, evs2)"
    and evs: "evs = EvGetEntry i # (evs1 @ evs2) @ EvFill (captured_offsets colls en) # post"
    and post: "list_all is_progress post"
    and r: "n' = n + 1" "(fProgressCallback imp' = None \<longleftrightarrow> fProgressCallback imp = None)"
    by (elim exE conjE) (rule that)
  have inner: "list_all is_inner (evs1 @ evs2)"
    using fill_collections_inner [OF f] transform_top_inner [OF t] by simp
  show ?thesis
    using evs r inner_no_entry [OF inner] progress_no_entry [OF post]
    by (simp add: entries_read_append)
qed

lemma loop_result_cases:
  fixes x :: "status \<times> loop_state \<times> event list"
  obtains s imp n evs where "x = (s, (imp, n), evs)"
proof (cases x)
  case (fields s st evs)
  then show ?thesis using that by (cases st) auto
qed

lemma import_loop_count:
  "import_loop e tree i nEntries (imp, n) = (Success, (imp', n'), evs) \<Longrightarrow>
     entries_read evs = [i..nEntries - 1] \<and> length (filter is_fill evs) = nat (nEntries - i) \<and>
     n' = n + nat (nEntries - i) \<and> settings imp' = settings imp \<and>
     (fProgressCallback imp' = None \<longleftrightarrow> fProgressCallback imp = None)"
proof (induction e tree i nEntries "(imp, n)" arbitrary: imp n imp' n' evs rule: import_loop.induct)
  case (1 e tree i nEntries)
  show ?case
  proof (cases "i < nEntries")
    case False
    then show ?thesis using "1.prems" by (simp add: import_loop.simps)
  next
    case True
    obtain s1 imp1 n1 evs1 where en: "import_entry e tree i (imp, n) = (s1, (imp1, n1), evs1)"
      by (rule loop_result_cases)
    have s1: "s1 = Success"
      using "1.prems" True en by (auto simp: import_loop.simps [of e tree i] split: status.splits)
    obtain s2 imp2 n2 evs2 where r: "import_loop e tree (i + 1) nEntries (imp1, n1) = (s2, (imp2, n2), evs2)"
      by (rule loop_result_cases)
    have res: "s2 = Success" "imp' = imp2" "n' = n2" "evs = evs1 @ evs2"
      using "1.prems" True en s1 r by (auto simp: import_loop.simps [of e tree i])
    from "1.hyps" [OF True en [symmetric] s1 refl] r res
    have ih: "entries_read evs2 = [i + 1..nEntries - 1]"
        "length (filter is_fill evs2) = nat (nEntries - (i + 1))"
        "n2 = n1 + nat (nEntries - (i + 1))" "settings imp2 = settings imp1"
        "(fProgressCallback imp2 = None \<longleftrightarrow> fProgressCallback imp1 = None)"
      by auto
    note ev = import_entry_Success_events [OF en [unfolded s1]]
    note st = import_entry_settings [OF en]
    have up: "[i..nEntries - 1] = i # [i + 1..nEntries - 1]"
      using True by (simp add: upto_rec1)
    have ar: "nat (nEntries - i) = Suc (nat (nEntries - (i + 1)))" using True by linarith
    show ?thesis using res ih ev st up ar by (simp add: entries_read_append)
  qed
qed

lemma bind_writer_keeps:
  "fSourceTree (bind_writer imp) = fSourceTree imp"
  "fMaxEntries (bind_writer imp) = fMaxEntries imp"
  "fNTupleName (bind_writer imp) = fNTupleName imp"
  "fLeafCountCollections (bind_writer imp) = fLeafCountCollections imp"
  "fImportBranches (bind_writer imp) = fImportBranches imp"
  "fImportFields (bind_writer imp) = fImportFields imp"
  "fImportTransformations (bind_writer imp) = fImportTransformations imp"
  by (simp_all add: bind_writer_def Let_def)

lemma write_entries_count:
  assumes "write_entries e imp = (Success, imp', evs)" and "fSourceTree imp = Some tree"
  shows "entries_read evs = [0..limit_entries (fMaxEntries imp) (tEntries tree) - 1] \<and>
         length (filter is_fill evs) = nat (limit_entries (fMaxEntries imp) (tEntries tree))"
proof -
  let ?n = "limit_entries (fMaxEntries imp) (tEntries tree)"
  let ?imp2 = "bind_writer imp"
  obtain m where m: "fModel imp = Some m"
    using assms by (cases "fModel imp") (auto simp: write_entries_def)
  obtain s1 imp3 n3 evs3 where l: "import_loop e tree 0 ?n (?imp2, 0) = (s1, (imp3, n3), evs3)"
    by (rule loop_result_cases)
  have s1: "s1 = Success"
    using assms m l by (auto simp: write_entries_def Let_def bind_writer_keeps split: status.splits)
  note c = import_loop_count [OF l [unfolded s1]]
  have fin: "entries_read fin = [] \<and> filter is_fill fin = []"
    if "fin = (case fProgressCallback imp3 of None \<Rightarrow> []
          | Some nx \<Rightarrow> EvFinish a b # Finish a b)" for fin a b
    using that by (auto simp: Finish_def split: option.splits)
  have evs: "evs = EvOpenWriter (fNTupleName imp) # evs3 @
                (case fProgressCallback imp3 of None \<Rightarrow> []
                 | Some nx \<Rightarrow> EvFinish (size_t_of_int (szWritePayload e n3)) (size_t_of_int ?n) #
                     Finish (size_t_of_int (szWritePayload e n3)) (size_t_of_int ?n)) @ [EvCloseWriter]"
    using assms m l s1 by (simp add: write_entries_def Let_def bind_writer_keeps)
  show ?thesis
    using c fin [OF refl] by (simp add: evs entries_read_append)
qed

text \<open>
  The records of an \<open>Import\<close> that returns success: the entries read and the number of
  top-level records filled.
\<close>

lemma Import_count_of_success:
  assumes "Import e imp = (Success, imp', evs)" and "fSourceTree imp = Some tree"
  shows "entries_read evs =
           [0..(if fMaxEntries imp \<ge> 0 then min (fMaxEntries imp) (tEntries tree) else tEntries tree) - 1] \<and>
         length (filter is_fill evs) =
           nat (if fMaxEntries imp \<ge> 0 then min (fMaxEntries imp) (tEntries tree) else tEntries tree)"
proof -
  obtain destFile where d: "fDestFile imp = Some destFile"
    using assms(1) by (cases "fDestFile imp") (auto simp: Import_def)
  have nk: "\<not> FindKey destFile (fNTupleName imp)"
    using assms(1) d by (auto simp: Import_def split: if_splits)
  obtain r imp1 evs0 where p: "PrepareSchema e imp = (r, imp1, evs0)"
    by (metis prod_cases3)
  obtain s2 imp2 evs1 where w: "write_entries e imp1 = (s2, imp2, evs1)"
    by (metis prod_cases3)
  have dr: "discard e r = Success"
    using assms(1) d nk p by (auto simp: Import_def split: status.splits)
  have res: "s2 = Success" "evs = evs0 @ evs1"
    using assms(1) d nk p dr w by (auto simp: Import_def)
  have st: "fSourceTree imp1 = Some tree" "fMaxEntries imp1 = fMaxEntries imp"
    using PrepareSchema_settings [OF p] assms(2) by (auto simp: settings_def)
  have lim: "limit_entries (fMaxEntries imp) (tEntries tree) =
        (if fMaxEntries imp \<ge> 0 then min (fMaxEntries imp) (tEntries tree) else tEntries tree)"
    by (simp add: limit_entries_def min_def)
  show ?thesis
    using write_entries_count [OF w [unfolded res(1)] st(1)] PrepareSchema_no_entry [OF p] res st lim
    by (simp add: entries_read_append)
qed


subsection \<open>Reads from the branch buffers\<close>















lemma array_read_unchecked:
  "fst (import_entry env0 tree_over 0 (prepared_na, 0)) = Success \<and>
   snd (snd (import_entry env0 tree_over 0 (prepared_na, 0))) =
     [EvGetEntry 0, EvReadArrayElement 0 0 0 4, EvCollectionFill ''n'',
      EvReadArrayElement 0 0 4 4, EvCollectionFill ''n'',
      EvReadArrayElement 0 0 8 4, EvCollectionFill ''n'', EvFill [(''_collection0'', 3)]] \<and>
   \<not> read_in_bounds (fImportBranches prepared_na) (EvReadArrayElement 0 0 8 4)"
  by (simp add: loop_defs prepared_na_def field_a_def example_defs tree_over_def size_t_of_int_def
        size_t_mul_def RNTupleImporter0_def)

subsection \<open>Whole imports of the example trees\<close>

lemmas import_defs = Import_def write_entries_def bind_writer_def limit_entries_def close_writer_def
  discard_def FindKey_def
  import_loop.simps Finish_def


lemma status_triple:
  fixes x :: "status \<times> RNTupleImporter \<times> event list"
  assumes "fst x = s"
  obtains imp evs where "x = (s, imp, evs)"
  using assms by (cases x) auto

subsection \<open>Progress notifications\<close>

text \<open>
  C9, evaluated: the import of the three entries of \<open>tree_na\<close>, not quiet, with a sink
  that has written 100 MB more after every entry. The hook \<open>Call\<close> is passed the loop
  index \<open>i\<close> after entry \<open>i\<close> has been filled: after the first record it reports 0
  entries (and prints "Wrote 100MB, 0 entries"), after the second 1, after the third 2,
  one less each time than the number of records submitted. \<open>Finish\<close> reports the total, 3.
\<close>

theorem progress_call_reports_index:
  "fst (Import env0 (importer_of tree_na)) = Success \<and>
   snd (snd (Import env0 (importer_of tree_na))) =
     [EvReportSchema ''a'' ''std::int32_t'', EvOpenWriter ''t'',
      EvGetEntry 0, EvFill [(''_collection0'', 0)], EvCall 100000000 0, EvPrintWrote 100 0,
      EvGetEntry 1, EvReadArrayElement 0 0 0 4, EvCollectionFill ''n'',
      EvFill [(''_collection0'', 1)], EvCall 200000000 1, EvPrintWrote 200 1,
      EvGetEntry 2, EvReadArrayElement 0 0 0 4, EvCollectionFill ''n'',
      EvReadArrayElement 0 0 4 4, EvCollectionFill ''n'',
      EvFill [(''_collection0'', 3)], EvCall 300000000 2, EvPrintWrote 300 2,
      EvFinish 300000000 3, EvPrintDone 300 3, EvCloseWriter]"
  by (simp add: import_defs loop_defs prepare_defs schema_defs example_defs)


subsection \<open>Results that are dropped\<close>

text \<open>
  \<open>Import\<close> calls \<open>PrepareSchema\<close> and \<open>Create\<close> calls \<open>SetupDestination\<close> as
  statements: the \<open>RResult\<close> they return is not looked at. The only failure that
  \<open>Import\<close> ever returns is the name collision, and \<open>Create\<close> never returns the
  failure of \<open>SetupDestination\<close>.
\<close>

lemma SetupDestination_status:
  "SetupDestination e dest imp = (s, imp') \<Longrightarrow>
     s = Success \<or> s = Failure (''cannot open dest file '' @ dest)"
  by (auto simp: SetupDestination_def Let_def split: option.splits if_splits)

lemma Create_tail_never_fails: "fst (Create_tail e dest imp) \<noteq> Failure msg"
proof -
  obtain s imp' where sd: "SetupDestination e dest imp = (s, imp')" by (metis surj_pair)
  from SetupDestination_status [OF sd] show ?thesis
    by (auto simp: Create_tail_def sd discard_def split: if_splits)
qed

lemma import_loop_status:
  "import_loop e tree i nEntries (imp, n) = (s, (imp', n'), evs) \<Longrightarrow> s = Success \<or> s = Undefined"
proof (induction e tree i nEntries "(imp, n)" arbitrary: imp n s imp' n' evs rule: import_loop.induct)
  case (1 e tree i nEntries)
  show ?case
  proof (cases "i < nEntries")
    case False
    then show ?thesis using "1.prems" by (simp add: import_loop.simps)
  next
    case True
    obtain s1 imp1 n1 evs1 where en: "import_entry e tree i (imp, n) = (s1, (imp1, n1), evs1)"
      by (rule loop_result_cases)
    show ?thesis
    proof (cases "s1 = Success")
      case False
      then have "s = s1" using "1.prems" True en
        by (auto simp: import_loop.simps [of e tree i] split: status.splits)
      then show ?thesis using import_entry_not_Success [OF en False] by simp
    next
      case s1: True
      obtain s2 imp2 n2 evs2 where r: "import_loop e tree (i + 1) nEntries (imp1, n1) = (s2, (imp2, n2), evs2)"
        by (rule loop_result_cases)
      have "s = s2" using "1.prems" True en s1 r by (auto simp: import_loop.simps [of e tree i])
      then show ?thesis using "1.hyps" [OF True en [symmetric] s1 refl r] by simp
    qed
  qed
qed

lemma write_entries_status:
  assumes "write_entries e imp = (s, imp', evs)"
  shows "s = Success \<or> s = Undefined"
proof (cases "fModel imp")
  case None
  then show ?thesis using assms by (simp add: write_entries_def)
next
  case (Some m)
  show ?thesis
  proof (cases "fSourceTree imp")
    case None
    then show ?thesis using assms Some by (simp add: write_entries_def Let_def bind_writer_keeps)
  next
    case (Some tree)
    let ?imp2 = "bind_writer imp"
    obtain s1 imp3 n3 evs3 where l: "import_loop e tree 0 (limit_entries (fMaxEntries imp) (tEntries tree))
        (?imp2, 0) = (s1, (imp3, n3), evs3)"
      by (rule loop_result_cases)
    from import_loop_status [OF l] assms \<open>fModel imp = Some m\<close> Some l show ?thesis
      by (auto simp: write_entries_def Let_def bind_writer_keeps)
  qed
qed

lemma Import_failure_is_collision:
  assumes "Import e imp = (Failure msg, imp', evs)"
  shows "\<exists>destFile. fDestFile imp = Some destFile \<and> FindKey destFile (fNTupleName imp) \<and>
           imp' = imp \<and> evs = []"
proof -
  obtain destFile where d: "fDestFile imp = Some destFile"
    using assms by (cases "fDestFile imp") (auto simp: Import_def)
  show ?thesis
  proof (cases "FindKey destFile (fNTupleName imp)")
    case True
    then show ?thesis using assms d by (auto simp: Import_def)
  next
    case False
    obtain r imp1 evs0 where p: "PrepareSchema e imp = (r, imp1, evs0)"
      by (metis prod_cases3)
    obtain s2 imp2 evs1 where w: "write_entries e imp1 = (s2, imp2, evs1)"
      by (metis prod_cases3)
    have "discard e r \<noteq> Failure msg" by (auto simp: discard_def split: status.splits)
    then have "False"
      using assms d False p w write_entries_status [OF w]
      by (auto simp: Import_def split: status.splits)
    then show ?thesis ..
  qed
qed


text \<open>A \<open>PrepareSchema\<close> that does not succeed has printed nothing.\<close>

lemma finish_schema_failed_no_events:
  "finish_schema imp = (s, imp', evs) \<Longrightarrow> s \<noteq> Success \<Longrightarrow> evs = []"
  by (auto simp: finish_schema_def Let_def split: option.splits if_splits)

lemma PrepareSchema_failed_no_events:
  assumes "PrepareSchema e imp = (s, imp1, evs0)" and "s \<noteq> Success"
  shows "evs0 = []"
proof (cases "fSourceTree (ResetSchema imp)")
  case None
  then show ?thesis using assms by (simp add: PrepareSchema_def Let_def)
next
  case (Some tree)
  obtain s1 imp2 where b: "branch_loop e (tBranches tree) (ResetSchema imp) = (s1, imp2)"
    by (metis surj_pair)
  show ?thesis
  proof (cases "s1 = Success")
    case False
    then show ?thesis using assms Some b
      by (auto simp: PrepareSchema_def Let_def split: status.splits)
  next
    case True
    obtain s2 colls imp3 where c: "collections_loop e 0 (fLeafCountCollections imp2) imp2 = (s2, colls, imp3)"
      by (metis prod_cases3)
    show ?thesis
    proof (cases "s2 = Success")
      case False
      then show ?thesis using assms Some b True c
        by (auto simp: PrepareSchema_def Let_def split: status.splits)
    next
      case s2: True
      have "finish_schema (imp3\<lparr>fLeafCountCollections := colls\<rparr>) = (s, imp1, evs0)"
        using assms(1) Some b True c s2 by (simp add: PrepareSchema_def Let_def)
      from finish_schema_failed_no_events [OF this assms(2)] show ?thesis .
    qed
  qed
qed

text \<open>
  C1 (amended): \<open>Import\<close> does not return the failure of \<open>PrepareSchema\<close>: it drops the
  \<open>RResult\<close> unchecked. With an \<open>RResult\<close> that throws its error when it is dropped
  unchecked, a schema preparation that fails (with a failure it returns, or with an error
  it throws itself) makes \<open>Import\<close> leave with an exception that carries the message of
  that failure. \<open>Import\<close> has then done nothing to the destination: its trace is empty (no
  writer opened, no record filled) and the destination file is as it was.
\<close>

theorem Import_raises_PrepareSchema_failure:
  assumes thr: "unchecked_throws e"
    and d: "fDestFile imp = Some destFile"
    and nk: "\<not> FindKey destFile (fNTupleName imp)"
    and p: "PrepareSchema e imp = (s, imp1, evs0)"
    and s: "s = Failure msg \<or> s = Throws msg"
  shows "Import e imp = (Throws msg, imp1, []) \<and> fDestFile imp1 = Some destFile"
proof -
  have ns: "s \<noteq> Success" using s by auto
  have ev: "evs0 = []" using PrepareSchema_failed_no_events [OF p ns] .
  have dr: "discard e s = Throws msg" using s thr by (auto simp: discard_def)
  have df: "fDestFile imp1 = Some destFile"
    using PrepareSchema_settings [OF p] d by (simp add: settings_def)
  show ?thesis using d nk p dr ev df by (simp add: Import_def)
qed

theorem Import_raises_PrepareSchema_failure_witness:
  "unchecked_throws env0_throwing \<and>
   fDestFile (importer_of tree_bad) = Some file0 \<and>
   \<not> FindKey file0 (fNTupleName (importer_of tree_bad)) \<and>
   fst (PrepareSchema env0_throwing (importer_of tree_bad)) =
     Failure ''unsupported: classes in leaf list, branch ev'' \<and>
   fst (Import env0_throwing (importer_of tree_bad)) =
     Throws ''unsupported: classes in leaf list, branch ev'' \<and>
   snd (snd (Import env0_throwing (importer_of tree_bad))) = [] \<and>
   fDestFile (fst (snd (Import env0_throwing (importer_of tree_bad)))) = Some file0"
proof -
  have thr: "unchecked_throws env0_throwing"
    by (simp add: env0_throwing_def)
  have d: "fDestFile (importer_of tree_bad) = Some file0"
    by (simp add: importer_of_def)
  have nk: "\<not> FindKey file0 (fNTupleName (importer_of tree_bad))"
    by (simp add: FindKey_def file0_def)
  have f: "fst (PrepareSchema env0_throwing (importer_of tree_bad)) =
     Failure ''unsupported: classes in leaf list, branch ev''"
    by (simp add: prepare_defs schema_defs example_defs tree_bad_def branch_bad_def
          env0_throwing_def importer_of_def RNTupleImporter0_def)
  then obtain imp1 evs0 where p: "PrepareSchema env0_throwing (importer_of tree_bad) =
      (Failure ''unsupported: classes in leaf list, branch ev'', imp1, evs0)"
    by (rule status_triple)
  from Import_raises_PrepareSchema_failure [OF thr d nk p] show ?thesis
    using thr d nk f by simp
qed

text \<open>
  C1 as stated fails: for the tree \<open>tree_bad\<close>, a leaf list with a class leaf,
  \<open>PrepareSchema\<close> returns the failure "unsupported: classes in leaf list", and \<open>Import\<close>
  does not return this failure: the failure leaves \<open>Import\<close> as an exception.
\<close>

theorem PrepareSchema_failure_not_returned:
  "fst (PrepareSchema env0_throwing (importer_of tree_bad)) =
     Failure ''unsupported: classes in leaf list, branch ev'' \<and>
   fst (Import env0_throwing (importer_of tree_bad)) \<noteq>
     Failure ''unsupported: classes in leaf list, branch ev'' \<and>
   fst (Import env0_throwing (importer_of tree_bad)) =
     Throws ''unsupported: classes in leaf list, branch ev''"
  by (simp add: import_defs loop_defs prepare_defs schema_defs example_defs tree_bad_def branch_bad_def
        env0_throwing_def)






subsection \<open>Schema preparation establishes the state of the array transformations\<close>



lemma set_insert_in_order: "set (insert_in_order k v m) = insert (k, v) (set m)"
  by (induction m) (auto split: if_splits)

lemma set_emplace: "set (emplace k v m) \<subseteq> insert (k, v) (set m)"
  by (auto simp: emplace_def set_insert_in_order split: option.splits)

lemma set_assign: "set (assign k v m) \<subseteq> insert (k, v) (set m)"
  by (induction m) (auto split: if_splits)

lemma subscript_cases:
  assumes "subscript m k = (c, m')"
  shows "map_of m' k = Some c \<and> set m' \<subseteq> insert (k, RImportLeafCountCollection0) (set m) \<and>
         (c = RImportLeafCountCollection0 \<or> (k, c) \<in> set m)"
proof (cases "map_of m k")
  case None
  then show ?thesis using assms set_emplace [of k RImportLeafCountCollection0 m]
    by (auto simp: subscript_def map_of_emplace)
next
  case (Some c0)
  then show ?thesis using assms by (auto simp: subscript_def dest: map_of_SomeD)
qed






lemma leafBranchBufferSize_set:
  assumes "leafBranchBufferSize colls isCStr isCls l field = (sz, colls')"
  shows "\<exists>k. set colls' \<subseteq> insert (k, RImportLeafCountCollection0) (set colls)"
proof (cases "\<not> isCStr \<and> \<not> isCls \<and> lLeafCounter l \<noteq> None")
  case True
  then obtain k where k: "lLeafCounter l = Some k" by auto
  obtain c colls2 where sub: "subscript colls k = (c, colls2)" by (cases "subscript colls k")
  show ?thesis using assms True k sub subscript_cases [OF sub]
    by (auto simp: leafBranchBufferSize_def)
next
  case False
  then have "colls' = colls" using assms
    by (auto simp: leafBranchBufferSize_def split: if_splits)
  then show ?thesis by auto
qed








lemma butlast_snoc_fField:
  assumes "flds \<noteq> []" and "fField bk = fField (last flds)" and "i < length flds"
  shows "fField ((butlast flds @ [bk]) ! i) = fField (flds ! i)"
proof (cases "i < length flds - 1")
  case True
  then show ?thesis by (simp add: nth_append nth_butlast)
next
  case False
  then have "i = length flds - 1" using assms(3) by simp
  then show ?thesis using assms(1,2) by (simp add: nth_append last_conv_nth)
qed






lemma prepare_collection_keeps:
  assumes "prepare_collection e i k c imp = (Success, c', imp')"
  shows "fTransformations c' = fTransformations c \<and> fMaxLength c' = fMaxLength c \<and>
         fCountVal c' = fCountVal c \<and> fCollectionWriter c' = Some 0 \<and>
         fImportBranches imp' = fImportBranches imp \<and> fImportFields imp' = fImportFields imp \<and>
         fImportTransformations imp' = fImportTransformations imp"
  using assms
  by (auto simp: prepare_collection_def Let_def
           split: option.splits prod.splits status.splits sum.splits)

lemma collections_loop_keeps:
  "collections_loop e i cs imp = (Success, cs', imp') \<Longrightarrow>
     (\<forall>(k, c') \<in> set cs'. \<exists>c. (k, c) \<in> set cs \<and> fTransformations c' = fTransformations c \<and>
         fMaxLength c' = fMaxLength c \<and> fCountVal c' = fCountVal c \<and> fCollectionWriter c' = Some 0) \<and>
     map fst cs' = map fst cs \<and>
     fImportBranches imp' = fImportBranches imp \<and> fImportFields imp' = fImportFields imp \<and>
     fImportTransformations imp' = fImportTransformations imp"
proof (induction cs arbitrary: i imp cs' imp')
  case Nil
  then show ?case by simp
next
  case (Cons kc cs)
  obtain k c where kc: "kc = (k, c)" by (cases kc)
  from Cons.prems kc obtain c1 imp1 cs2 where
    p: "prepare_collection e i k c imp = (Success, c1, imp1)"
    and r: "collections_loop e (i + 1) cs imp1 = (Success, cs2, imp')"
    and res: "cs' = (k, c1) # cs2"
    by (auto split: prod.splits status.splits)
  from prepare_collection_keeps [OF p] Cons.IH [OF r] res kc show ?case
    by fastforce
qed

lemma finish_schema_keeps:
  "finish_schema imp = (Success, imp', evs) \<Longrightarrow>
     fLeafCountCollections imp' = fLeafCountCollections imp \<and>
     fImportBranches imp' = fImportBranches imp \<and> fImportFields imp' = fImportFields imp \<and>
     fImportTransformations imp' = fImportTransformations imp \<and> fEntry imp' \<noteq> None"
  by (auto simp: finish_schema_def Let_def split: option.splits if_splits)












subsection \<open>The import of a prepared schema returns\<close>

text \<open>
  On a schema that satisfies \<open>runnable\<close>, every step of the loop of \<open>Import\<close> succeeds:
  the transformations, the sub-collection records and the top-level record.
\<close>

lemma Transform_runnable:
  assumes "transformation_runnable brs flds t"
  shows "\<exists>t' evs. Transform brs flds t = (Success, t', evs) \<and>
           transformation_runnable brs flds t' \<and> transformation_runnable brs flds (ResetEntry t')"
  using assms
  by (cases t) (auto simp: Transform_def transformation_runnable_def Let_def split: option.splits)

lemma transform_all_runnable:
  assumes "list_all (transformation_runnable brs flds) ts"
  shows "\<exists>ts' evs. transform_all brs flds ts = (Success, ts', evs) \<and>
           list_all (transformation_runnable brs flds) ts'"
  using assms
proof (induction ts)
  case Nil
  then show ?case by simp
next
  case (Cons t ts)
  then obtain t' evs ts' evs' where
    "Transform brs flds t = (Success, t', evs)" "transformation_runnable brs flds t'"
    "transform_all brs flds ts = (Success, ts', evs')" "list_all (transformation_runnable brs flds) ts'"
    using Transform_runnable [of brs flds t] by auto
  then show ?case by simp
qed

lemma transform_top_runnable:
  assumes "list_all (transformation_runnable brs flds) ts"
  shows "\<exists>ts' evs. transform_top brs flds ts = (Success, ts', evs) \<and>
           list_all (transformation_runnable brs flds) ts'"
  using assms
proof (induction ts)
  case Nil
  then show ?case by simp
next
  case (Cons t ts)
  then obtain t' evs ts' evs' where
    "Transform brs flds t = (Success, t', evs)" "transformation_runnable brs flds (ResetEntry t')"
    "transform_top brs flds ts = (Success, ts', evs')" "list_all (transformation_runnable brs flds) ts'"
    using Transform_runnable [of brs flds t] by auto
  then show ?case by simp
qed

lemma element_loop_runnable:
  assumes "collection_runnable brs flds c"
  shows "\<exists>c' evs. element_loop brs flds k l n c = (Success, c', evs) \<and> collection_runnable brs flds c'"
  using assms
proof (induction brs flds k l n c rule: element_loop.induct)
  case (1 brs flds k l n c)
  show ?case
  proof (cases "l < n")
    case False
    then show ?thesis using "1.prems" by (simp add: element_loop.simps)
  next
    case True
    from "1.prems" obtain ts evs1 off where
      t: "transform_all brs flds (fTransformations c) = (Success, ts, evs1)"
      and ts: "list_all (transformation_runnable brs flds) ts"
      and off: "fCollectionWriter c = Some off"
      using transform_all_runnable [of brs flds "fTransformations c"]
      by (auto simp: collection_runnable_def)
    let ?c1 = "c\<lparr>fTransformations := ts, fCollectionWriter := Some (off + 1)\<rparr>"
    have r1: "collection_runnable brs flds ?c1"
      using "1.prems" ts by (simp add: collection_runnable_def)
    from "1.IH" [OF True t [symmetric] refl refl off r1] obtain c' evs2 where
      "element_loop brs flds k (l + 1) n ?c1 = (Success, c', evs2)" "collection_runnable brs flds c'"
      by auto
    then show ?thesis using True t off by (simp add: element_loop.simps [of brs flds k l n c])
  qed
qed

lemma ResetEntry_runnable:
  "transformation_runnable brs flds t \<Longrightarrow> transformation_runnable brs flds (ResetEntry t)"
  by (cases t) (auto simp: transformation_runnable_def)

lemma fill_collection_runnable:
  assumes "collection_runnable brs flds c"
  shows "\<exists>c' evs. fill_collection brs flds tree i k c = (Success, c', evs) \<and> collection_runnable brs flds c'"
proof -
  from assms obtain bn where bn: "fCountVal c = Some bn" by (auto simp: collection_runnable_def)
  from element_loop_runnable [OF assms, of k 0 "tCountValue tree i bn"] obtain c1 evs where
    e: "element_loop brs flds k 0 (tCountValue tree i bn) c = (Success, c1, evs)"
    and r: "collection_runnable brs flds c1"
    by auto
  have "collection_runnable brs flds (c1\<lparr>fTransformations := map ResetEntry (fTransformations c1)\<rparr>)"
    using r by (auto simp: collection_runnable_def list_all_iff ResetEntry_runnable)
  then show ?thesis using bn e by (simp add: fill_collection_def)
qed

lemma fill_collections_runnable:
  assumes "\<forall>(k, c) \<in> set cs. collection_runnable brs flds c"
  shows "\<exists>cs' evs. fill_collections brs flds tree i cs = (Success, cs', evs) \<and>
           (\<forall>(k, c) \<in> set cs'. collection_runnable brs flds c)"
  using assms
proof (induction cs)
  case Nil
  then show ?case by simp
next
  case (Cons kc cs)
  obtain k c where kc: "kc = (k, c)" by (cases kc)
  from Cons.prems kc fill_collection_runnable [of brs flds c tree i k] obtain c' evs where
    f: "fill_collection brs flds tree i k c = (Success, c', evs)" "collection_runnable brs flds c'"
    by auto
  from Cons obtain cs' evs' where
    r: "fill_collections brs flds tree i cs = (Success, cs', evs')"
    "\<forall>(k, c) \<in> set cs'. collection_runnable brs flds c"
    by auto
  show ?case using kc f r by simp
qed

lemma import_entry_runnable:
  assumes "runnable imp"
  shows "\<exists>imp' evs. import_entry e tree i (imp, n) = (Success, (imp', n + 1), evs) \<and> runnable imp'"
proof -
  from assms fill_collections_runnable [of "fLeafCountCollections imp" "fImportBranches imp" "fImportFields imp" tree i]
  obtain colls evs1 where
    f: "fill_collections (fImportBranches imp) (fImportFields imp) tree i (fLeafCountCollections imp) =
          (Success, colls, evs1)"
    and c: "\<forall>(k, c) \<in> set colls. collection_runnable (fImportBranches imp) (fImportFields imp) c"
    by (auto simp: runnable_def)
  from assms transform_top_runnable [of "fImportBranches imp" "fImportFields imp" "fImportTransformations imp"]
  obtain ts evs2 where
    t: "transform_top (fImportBranches imp) (fImportFields imp) (fImportTransformations imp) =
          (Success, ts, evs2)"
    and ts: "list_all (transformation_runnable (fImportBranches imp) (fImportFields imp)) ts"
    by (auto simp: runnable_def)
  from assms obtain en where en: "fEntry imp = Some en" by (auto simp: runnable_def)
  show ?thesis
  proof (cases "fProgressCallback imp")
    case None
    then show ?thesis using f c t ts en
      by (simp add: import_entry_def Let_def runnable_def)
  next
    case (Some nx)
    obtain nx' printed where
      "Call nx (size_t_of_int (szWritePayload e (n + 1))) (size_t_of_int i) = (nx', printed)"
      by (metis surj_pair)
    then show ?thesis using f c t ts en Some
      by (simp add: import_entry_def Let_def runnable_def)
  qed
qed

lemma import_loop_runnable:
  assumes "runnable imp"
  shows "\<exists>imp' n' evs. import_loop e tree i nEntries (imp, n) = (Success, (imp', n'), evs)"
  using assms
proof (induction e tree i nEntries "(imp, n)" arbitrary: imp n rule: import_loop.induct)
  case (1 e tree i nEntries)
  show ?case
  proof (cases "i < nEntries")
    case False
    then show ?thesis by (simp add: import_loop.simps)
  next
    case True
    from import_entry_runnable [OF "1.prems", of e tree i n] obtain imp1 evs1 where
      en: "import_entry e tree i (imp, n) = (Success, (imp1, n + 1), evs1)" and r: "runnable imp1"
      by auto
    from "1.hyps" [OF True en [symmetric] refl refl r] obtain imp' n' evs2 where
      "import_loop e tree (i + 1) nEntries (imp1, n + 1) = (Success, (imp', n'), evs2)"
      by auto
    then show ?thesis using True en by (simp add: import_loop.simps [of e tree i])
  qed
qed

lemma write_entries_runnable:
  assumes "runnable imp" and "fModel imp \<noteq> None" and "fSourceTree imp \<noteq> None"
  shows "fst (write_entries e imp) = Success"
proof -
  from assms obtain m tree where m: "fModel imp = Some m" and t: "fSourceTree imp = Some tree"
    by auto
  have "runnable (bind_writer imp)"
    using assms(1) by (simp add: runnable_def bind_writer_def Let_def)
  from import_loop_runnable [OF this, of e tree 0 "limit_entries (fMaxEntries imp) (tEntries tree)" 0]
  show ?thesis using m t
    by (auto simp: write_entries_def Let_def bind_writer_keeps)
qed

text \<open>
  A \<open>PrepareSchema\<close> that returns success leaves a schema that satisfies \<open>runnable\<close>.
\<close>

lemma transformation_runnable_mono:
  assumes "transformation_runnable brs flds t"
    and "length flds \<le> length flds'"
    and "\<forall>i < length flds. fField (flds' ! i) = fField (flds ! i) \<and>
           (fFieldBuffer (flds ! i) \<noteq> Null \<longrightarrow> fFieldBuffer (flds' ! i) \<noteq> Null)"
  shows "transformation_runnable (brs @ bs) flds' t"
  using assms by (auto simp: transformation_runnable_def)

lemma prep_runnable_mono:
  assumes "prep_runnable imp"
    and "fLeafCountCollections imp' = fLeafCountCollections imp"
    and "fImportTransformations imp' = fImportTransformations imp"
    and "fImportBranches imp' = fImportBranches imp @ bs"
    and "length (fImportFields imp) \<le> length (fImportFields imp')"
    and "\<forall>i < length (fImportFields imp).
           fField (fImportFields imp' ! i) = fField (fImportFields imp ! i) \<and>
           (fFieldBuffer (fImportFields imp ! i) \<noteq> Null \<longrightarrow> fFieldBuffer (fImportFields imp' ! i) \<noteq> Null)"
  shows "prep_runnable imp'"
proof -
  have m: "transformation_runnable (fImportBranches imp) (fImportFields imp) t \<Longrightarrow>
           transformation_runnable (fImportBranches imp') (fImportFields imp') t" for t
    using transformation_runnable_mono [of "fImportBranches imp" "fImportFields imp" t "fImportFields imp'" bs]
      assms(4,5,6) by simp
  show ?thesis using assms(1,2,3) m by (auto simp: prep_runnable_def list_all_iff)
qed

lemma prep_runnable_colls_update:
  assumes "prep_runnable imp"
    and "set colls' \<subseteq> insert (k, RImportLeafCountCollection0) (set (fLeafCountCollections imp))"
  shows "prep_runnable (imp\<lparr>fLeafCountCollections := colls'\<rparr>)"
proof -
  have "c = RImportLeafCountCollection0 \<or> (k', c) \<in> set (fLeafCountCollections imp)"
    if "(k', c) \<in> set colls'" for k' c
    using that assms(2) by auto
  then show ?thesis using assms(1)
    by (fastforce simp: prep_runnable_def RImportLeafCountCollection0_def)
qed

lemma process_leaf_leaflist_run:
  assumes "prep_runnable imp" and "isLeafList b" and "\<not> isCStr"
    and "process_leaf e b isCStr isCls (sz, items, imp) l = (Success, (sz', items', imp'))"
  shows "prep_runnable imp'"
proof -
  from assms(4) have no: "lIsA l \<noteq> TLeafObject"
    by (auto simp: process_leaf_def split: if_splits)
  from assms(4) no obtain field where
    f: "Create_field e (leafFieldName b l) (leafFieldType b isCStr isCls l) = Inr field"
    by (auto simp: process_leaf_def split: sum.splits)
  obtain bs colls where lb:
    "leafBranchBufferSize (fLeafCountCollections imp) isCStr isCls l field = (bs, colls)"
    by (cases "leafBranchBufferSize (fLeafCountCollections imp) isCStr isCls l field")
  have "imp' = imp\<lparr>fLeafCountCollections := colls\<rparr>"
    using assms(2,3,4) no f lb by (simp add: process_leaf_def Let_def)
  then show ?thesis
    using leafBranchBufferSize_set [OF lb] prep_runnable_colls_update [OF assms(1)] by auto
qed

lemma leaf_loop_leaflist_run:
  assumes "prep_runnable imp" and "isLeafList b" and "\<not> isCStr"
    and "leaf_loop e b isCStr isCls ls (sz, items, imp) = (Success, (sz', items', imp'))"
  shows "prep_runnable imp'"
  using assms(1,4)
proof (induction ls arbitrary: sz items imp)
  case Nil
  then show ?case by simp
next
  case (Cons l ls)
  from Cons.prems(2) obtain sz1 items1 imp1 where
    p: "process_leaf e b isCStr isCls (sz, items, imp) l = (Success, (sz1, items1, imp1))"
    and r: "leaf_loop e b isCStr isCls ls (sz1, items1, imp1) = (Success, (sz', items', imp'))"
    by (auto split: prod.splits status.splits)
  from process_leaf_leaflist_run [OF Cons.prems(1) assms(2,3) p] Cons.IH r show ?case by blast
qed

lemma process_leaf_single_run:
  assumes ok: "prep_runnable imp" and single: "\<not> isLeafList b"
    and p: "process_leaf e b isCStr isCls (sz, items, imp) l = (Success, (sz', items', imp'))"
  shows "prep_runnable (imp'\<lparr>fImportBranches := fImportBranches imp' @ [ib]\<rparr>)"
proof -
  from p have no: "lIsA l \<noteq> TLeafObject"
    by (auto simp: process_leaf_def split: if_splits)
  from p no obtain field where
    f: "Create_field e (leafFieldName b l) (leafFieldType b isCStr isCls l) = Inr field"
    by (auto simp: process_leaf_def split: sum.splits)
  obtain bsz colls' where lb:
    "leafBranchBufferSize (fLeafCountCollections imp) isCStr isCls l field = (bsz, colls')"
    by (cases "leafBranchBufferSize (fLeafCountCollections imp) isCStr isCls l field")
  have cs: "isCStr \<Longrightarrow> colls' = fLeafCountCollections imp"
    using lb by (simp add: leafBranchBufferSize_def)
  let ?f1 = "(if isCStr then RImportField0\<lparr>fIsClass := isCls\<rparr>\<lparr>fFieldBuffer := Owned, fOwnsFieldBuffer := True\<rparr>
             else RImportField0\<lparr>fIsClass := isCls\<rparr>)"
  let ?f2 = "?f1\<lparr>fField := Some field\<rparr>"
  let ?t = "RCStringTransformation (length (fImportBranches imp)) (length (fImportFields imp))"
  define imp1 where "imp1 = (if isCStr
                          then imp\<lparr>fImportTransformations := fImportTransformations imp @ [?t]\<rparr>
                          else imp\<lparr>fLeafCountCollections := colls'\<rparr>)"
  have i1: "fLeafCountCollections imp1 = colls'" "fImportBranches imp1 = fImportBranches imp"
      "fImportFields imp1 = fImportFields imp"
      "fImportTransformations imp1 = (if isCStr then fImportTransformations imp @ [?t]
                                      else fImportTransformations imp)"
    using cs by (auto simp: imp1_def)
  let ?brs = "fImportBranches imp @ [ib]"
  have mono: "transformation_runnable ?brs (fImportFields imp @ [g]) t"
    if "transformation_runnable (fImportBranches imp) (fImportFields imp) t" for t g
    using transformation_runnable_mono [OF that, of "fImportFields imp @ [g]" "[ib]"]
    by (simp add: nth_append)
  have newtop: "isCStr \<Longrightarrow> fFieldBuffer g \<noteq> Null \<Longrightarrow>
      transformation_runnable ?brs (fImportFields imp @ [g]) ?t" for g
    by (simp add: transformation_runnable_def nth_append)
  have tops: "list_all (transformation_runnable ?brs (fImportFields imp @ [g])) (fImportTransformations imp1)"
    if "isCStr \<longrightarrow> fFieldBuffer g \<noteq> Null" for g
    using ok mono newtop that by (auto simp: i1 prep_runnable_def list_all_iff)
  have oldc: "(fCollectionModel c \<noteq> None \<longrightarrow> fCountVal c \<noteq> None) \<and>
        list_all (transformation_runnable (fImportBranches imp) (fImportFields imp)) (fTransformations c)"
    if "(k', c) \<in> set colls'" for k' c
  proof -
    from leafBranchBufferSize_set [OF lb] obtain k0 where
      "set colls' \<subseteq> insert (k0, RImportLeafCountCollection0) (set (fLeafCountCollections imp))" ..
    with that have "c = RImportLeafCountCollection0 \<or> (k', c) \<in> set (fLeafCountCollections imp)"
      by auto
    then show ?thesis using ok
      by (fastforce simp: prep_runnable_def RImportLeafCountCollection0_def)
  qed
  show ?thesis
  proof (cases "lLeafCounter l")
    case None
    from p no f None single lb obtain m where m: "fModel imp1 = Some m"
      by (cases "fModel imp1") (auto simp: process_leaf_def Let_def imp1_def split: if_splits)
    have eq: "imp' = imp1\<lparr>fModel := Some (AddField field m), fImportFields := fImportFields imp1 @ [?f2]\<rparr>"
      using p no f None single lb m by (simp add: process_leaf_def Let_def imp1_def)
    have g: "isCStr \<longrightarrow> fFieldBuffer ?f2 \<noteq> Null" by simp
    show ?thesis
      unfolding prep_runnable_def using tops [OF g] oldc mono
      by (auto simp: eq i1 list_all_iff)
  next
    case (Some k)
    obtain s2 imp2 where a: "add_to_collection k field ?f2 imp1 = (s2, imp2)"
      by (metis surj_pair)
    have res: "s2 = Success" "imp' = imp2"
      using p no f single Some lb a by (auto simp: process_leaf_def Let_def imp1_def)
    obtain c0 colls2 where sub: "subscript colls' k = (c0, colls2)"
      by (cases "subscript colls' k")
    note sc = subscript_cases [OF sub]
    from a res(1) sub obtain cm where cm: "fCollectionModel c0 = Some cm"
      by (cases "fCollectionModel c0") (auto simp: add_to_collection_def Let_def i1)
    let ?ta = "RLeafArrayTransformation (length (fImportBranches imp)) (length (fImportFields imp)) 0"
    let ?c3 = "c0\<lparr>fCollectionModel := Some (AddField field cm),
                  fImportFieldIndexes := fImportFieldIndexes c0 @ [length (fImportFields imp)],
                  fTransformations := fTransformations c0 @ [?ta]\<rparr>"
    let ?g = "?f2\<lparr>fFieldBuffer := Owned, fOwnsFieldBuffer := True, fIsInUntypedCollection := True\<rparr>"
    have eq: "imp2 = imp1\<lparr>fLeafCountCollections := assign k ?c3 colls2,
                              fImportFields := fImportFields imp @ [?g]\<rparr>"
      using a sub cm by (simp add: add_to_collection_def Let_def i1)
    have c0old: "(fCollectionModel c0 \<noteq> None \<longrightarrow> fCountVal c0 \<noteq> None) \<and>
        list_all (transformation_runnable (fImportBranches imp) (fImportFields imp)) (fTransformations c0)"
      using sc oldc by (auto simp: RImportLeafCountCollection0_def)
    have new: "transformation_runnable ?brs (fImportFields imp @ [?g]) ?ta"
      by (simp add: transformation_runnable_def nth_append)
    have c3: "(fCollectionModel ?c3 \<noteq> None \<longrightarrow> fCountVal ?c3 \<noteq> None) \<and>
        list_all (transformation_runnable ?brs (fImportFields imp @ [?g])) (fTransformations ?c3)"
      using c0old cm new mono by (auto simp: list_all_iff)
    have all: "(fCollectionModel c \<noteq> None \<longrightarrow> fCountVal c \<noteq> None) \<and>
        list_all (transformation_runnable ?brs (fImportFields imp @ [?g])) (fTransformations c)"
      if "(k', c) \<in> set (assign k ?c3 colls2)" for k' c
    proof -
      from that set_assign [of k ?c3 colls2] have "c = ?c3 \<or> (k', c) \<in> set colls2" by auto
      then show ?thesis
      proof
        assume "c = ?c3" then show ?thesis using c3 by simp
      next
        assume "(k', c) \<in> set colls2"
        then have "c = RImportLeafCountCollection0 \<or> (k', c) \<in> set colls'" using sc by auto
        then show ?thesis using oldc mono by (auto simp: RImportLeafCountCollection0_def list_all_iff)
      qed
    qed
    have g: "isCStr \<longrightarrow> fFieldBuffer ?g \<noteq> Null" by simp
    let ?X = "imp'\<lparr>fImportBranches := fImportBranches imp' @ [ib]\<rparr>"
    have sel: "fImportBranches ?X = ?brs" "fImportFields ?X = fImportFields imp @ [?g]"
        "fImportTransformations ?X = fImportTransformations imp1"
        "fLeafCountCollections ?X = assign k ?c3 colls2"
      by (simp_all add: res eq i1)
    have a2: "\<forall>(k', c) \<in> set (assign k ?c3 colls2).
        (fCollectionModel c \<noteq> None \<longrightarrow> fCountVal c \<noteq> None) \<and>
        list_all (transformation_runnable ?brs (fImportFields imp @ [?g])) (fTransformations c)"
      using all by blast
    show ?thesis
      unfolding prep_runnable_def sel by (rule conjI [OF tops [OF g] a2])
  qed
qed


lemma add_record_field_run:
  assumes "prep_runnable (imp\<lparr>fImportBranches := fImportBranches imp @ [ib]\<rparr>)"
    and "add_record_field e b items imp = (Success, imp')"
  shows "prep_runnable (imp'\<lparr>fImportBranches := fImportBranches imp' @ [ib]\<rparr>)"
proof (cases "items = []")
  case True
  then show ?thesis using assms by (simp add: add_record_field_def)
next
  case False
  then obtain m f where "fModel imp = Some m"
    "imp' = imp\<lparr>fImportFields := fImportFields imp @ [f], fModel := Some (AddField (RRecordField_new e (bName b) items) m)\<rparr>"
    using assms(2) by (cases "fModel imp") (auto simp: add_record_field_def Let_def)
  then show ?thesis
    using prep_runnable_mono [OF assms(1), of "imp'\<lparr>fImportBranches := fImportBranches imp' @ [ib]\<rparr>" "[]"]
    by (simp add: nth_append)
qed

lemma butlast_snoc_fFieldBuffer:
  assumes "flds \<noteq> []" and "fFieldBuffer (last flds) \<noteq> Null \<longrightarrow> fFieldBuffer bk \<noteq> Null"
    and "i < length flds" and "fFieldBuffer (flds ! i) \<noteq> Null"
  shows "fFieldBuffer ((butlast flds @ [bk]) ! i) \<noteq> Null"
proof (cases "i < length flds - 1")
  case True
  then show ?thesis using assms(4) by (simp add: nth_append nth_butlast)
next
  case False
  then have "i = length flds - 1" using assms(3) by simp
  then show ?thesis using assms(1,2,4) by (simp add: nth_append last_conv_nth)
qed

lemma finish_branch_run:
  assumes "prep_runnable (imp\<lparr>fImportBranches := fImportBranches imp @
             [\<lparr>fBranchName = bName b, fBranchBuffer = sz\<rparr>]\<rparr>)"
    and "finish_branch e b isCls sz imp = (Success, imp')"
  shows "prep_runnable imp'"
proof -
  let ?ib = "\<lparr>fBranchName = bName b, fBranchBuffer = sz\<rparr>"
  from assms(2) have ne: "fImportFields imp \<noteq> []"
    by (auto simp: finish_branch_def Let_def split: if_splits)
  define bk where "bk =
     (if fFieldBuffer (last (fImportFields imp)) = Null
      then (last (fImportFields imp))\<lparr>fFieldBuffer :=
             (if isCls then Pointee (length (fImportBranches imp))
              else BranchBuffer (length (fImportBranches imp)))\<rparr>
      else last (fImportFields imp))"
  have bf: "fField bk = fField (last (fImportFields imp))"
    by (simp add: bk_def)
  have bb: "fFieldBuffer (last (fImportFields imp)) \<noteq> Null \<longrightarrow> fFieldBuffer bk \<noteq> Null"
    by (simp add: bk_def)
  have eq: "imp' = imp\<lparr>fImportFields := butlast (fImportFields imp) @ [bk],
                          fImportBranches := fImportBranches imp @ [?ib]\<rparr>"
    using assms(2) ne by (simp add: finish_branch_def Let_def bk_def split: if_splits)
  show ?thesis
    using prep_runnable_mono [OF assms(1), of imp' "[]"] eq butlast_snoc_fField [OF ne bf]
      butlast_snoc_fFieldBuffer [OF ne bb]
    by simp
qed

lemma process_branch_run:
  assumes ok: "prep_runnable imp"
    and p: "process_branch e imp b = (Success, imp')"
  shows "prep_runnable imp'"
proof -
  from p obtain firstLeaf rest where l: "bLeaves b = firstLeaf # rest"
    by (cases "bLeaves b") (auto simp: process_branch_def)
  show ?thesis
  proof (cases "isCountLeaf firstLeaf")
    case True
    let ?c = "RImportLeafCountCollection0\<lparr>fCollectionModel := Some CreateBare,
                fMaxLength := lMaximum firstLeaf, fCountVal := Some (bName b)\<rparr>"
    have eq: "imp' = imp\<lparr>fLeafCountCollections :=
                  emplace (lName firstLeaf) ?c (fLeafCountCollections imp)\<rparr>"
      using p l True by (auto simp: process_branch_def Let_def split: if_splits)
    have c: "(fCollectionModel ?c \<noteq> None \<longrightarrow> fCountVal ?c \<noteq> None) \<and> fTransformations ?c = []"
      by (simp add: RImportLeafCountCollection0_def)
    have "c' = ?c \<or> (k', c') \<in> set (fLeafCountCollections imp)"
      if "(k', c') \<in> set (emplace (lName firstLeaf) ?c (fLeafCountCollections imp))" for k' c'
      using that set_emplace [of "lName firstLeaf" ?c "fLeafCountCollections imp"] by auto
    then show ?thesis
      using ok c unfolding eq prep_runnable_def by fastforce
  next
    case False
    from p l False obtain sz items imp1 imp2 where
      ll: "leaf_loop e b (isCString b firstLeaf) (isClass firstLeaf) (bLeaves b) (0, [], imp) =
             (Success, (sz, items, imp1))"
      and ar: "add_record_field e b items imp1 = (Success, imp2)"
      and fb: "finish_branch e b (isClass firstLeaf) sz imp2 = (Success, imp')"
      by (auto simp: process_branch_def split: if_splits prod.splits status.splits)
    let ?ib = "\<lparr>fBranchName = bName b, fBranchBuffer = sz\<rparr>"
    have pend: "prep_runnable (imp1\<lparr>fImportBranches := fImportBranches imp1 @ [?ib]\<rparr>)"
    proof (cases "isLeafList b")
      case True
      then have nc: "\<not> isCString b firstLeaf" by (simp add: isCString_def)
      from leaf_loop_leaflist_run [OF ok True nc ll] have "prep_runnable imp1" .
      then show ?thesis
        using prep_runnable_mono [of imp1 "imp1\<lparr>fImportBranches := fImportBranches imp1 @ [?ib]\<rparr>" "[?ib]"]
        by simp
    next
      case single: False
      then have r: "rest = []" using l by (cases rest) (simp_all add: isLeafList_def GetNleaves_def)
      from ll l r have
        pl: "process_leaf e b (isCString b firstLeaf) (isClass firstLeaf) (0, [], imp) firstLeaf =
               (Success, (sz, items, imp1))"
        by (auto split: prod.splits status.splits)
      from process_leaf_single_run [OF ok single pl] show ?thesis .
    qed
    from finish_branch_run [OF add_record_field_run [OF pend ar] fb] show ?thesis .
  qed
qed

lemma branch_loop_run:
  assumes "prep_runnable imp" and "branch_loop e bs imp = (Success, imp')"
  shows "prep_runnable imp'"
  using assms
proof (induction bs arbitrary: imp)
  case Nil
  then show ?case by simp
next
  case (Cons b bs)
  from Cons.prems(2) obtain imp1 where
    p: "process_branch e imp b = (Success, imp1)" and r: "branch_loop e bs imp1 = (Success, imp')"
    by (auto split: prod.splits status.splits)
  from Cons.IH [OF process_branch_run [OF Cons.prems(1) p] r] show ?case .
qed

lemma prepare_collection_model:
  assumes "prepare_collection e i k c imp = (Success, c', imp')"
  shows "fCollectionModel c \<noteq> None \<and> fModel imp' \<noteq> None"
  using assms
  by (auto simp: prepare_collection_def Let_def
           split: option.splits prod.splits status.splits sum.splits)

lemma collections_loop_model:
  "collections_loop e i cs imp = (Success, cs', imp') \<Longrightarrow>
     (\<forall>(k, c') \<in> set cs'. \<exists>c. (k, c) \<in> set cs \<and> fTransformations c' = fTransformations c \<and>
         fCountVal c' = fCountVal c \<and> fCollectionWriter c' = Some 0 \<and> fCollectionModel c \<noteq> None)"
proof (induction cs arbitrary: i imp cs' imp')
  case Nil
  then show ?case by simp
next
  case (Cons kc cs)
  obtain k c where kc: "kc = (k, c)" by (cases kc)
  from Cons.prems kc obtain c1 imp1 cs2 where
    p: "prepare_collection e i k c imp = (Success, c1, imp1)"
    and r: "collections_loop e (i + 1) cs imp1 = (Success, cs2, imp')"
    and res: "cs' = (k, c1) # cs2"
    by (auto split: prod.splits status.splits)
  from prepare_collection_keeps [OF p] prepare_collection_model [OF p] Cons.IH [OF r] res kc
  show ?case by fastforce
qed

lemma finish_schema_model:
  "finish_schema imp = (Success, imp', evs) \<Longrightarrow> fModel imp' \<noteq> None"
  by (auto simp: finish_schema_def Let_def split: option.splits if_splits)

lemma PrepareSchema_runnable:
  assumes p: "PrepareSchema e imp = (Success, imp', evs)"
  shows "runnable imp' \<and> fModel imp' \<noteq> None"
proof -
  have ok0: "prep_runnable (ResetSchema imp)" by (simp add: prep_runnable_def ResetSchema_def)
  from p obtain tree where t0: "fSourceTree (ResetSchema imp) = Some tree"
    by (cases "fSourceTree (ResetSchema imp)") (auto simp: PrepareSchema_def Let_def)
  from p t0 obtain imp1 colls imp2 where
    b: "branch_loop e (tBranches tree) (ResetSchema imp) = (Success, imp1)"
    and c: "collections_loop e 0 (fLeafCountCollections imp1) imp1 = (Success, colls, imp2)"
    and f: "finish_schema (imp2\<lparr>fLeafCountCollections := colls\<rparr>) = (Success, imp', evs)"
    by (auto simp: PrepareSchema_def Let_def split: prod.splits status.splits)
  have ok1: "prep_runnable imp1" using branch_loop_run [OF ok0 b] .
  note ck = collections_loop_keeps [OF c]
  note cm = collections_loop_model [OF c]
  note fk = finish_schema_keeps [OF f]
  have sel: "fImportBranches imp' = fImportBranches imp1" "fImportFields imp' = fImportFields imp1"
      "fImportTransformations imp' = fImportTransformations imp1"
      "fLeafCountCollections imp' = colls"
    using ck fk by simp_all
  have "collection_runnable (fImportBranches imp1) (fImportFields imp1) c'"
    if "(k, c') \<in> set colls" for k c'
  proof -
    from that cm obtain c0 where c0: "(k, c0) \<in> set (fLeafCountCollections imp1)"
      "fTransformations c' = fTransformations c0" "fCountVal c' = fCountVal c0"
      "fCollectionWriter c' = Some 0" "fCollectionModel c0 \<noteq> None"
      by fastforce
    from c0(1) ok1 have "(fCollectionModel c0 \<noteq> None \<longrightarrow> fCountVal c0 \<noteq> None) \<and>
        list_all (transformation_runnable (fImportBranches imp1) (fImportFields imp1)) (fTransformations c0)"
      by (fastforce simp: prep_runnable_def)
    then show ?thesis using c0 by (simp add: collection_runnable_def)
  qed
  then have colls: "\<forall>(k, c) \<in> set colls. collection_runnable (fImportBranches imp1) (fImportFields imp1) c"
    by blast
  have tops: "list_all (transformation_runnable (fImportBranches imp1) (fImportFields imp1))
      (fImportTransformations imp1)"
    using ok1 by (simp add: prep_runnable_def)
  have en: "fEntry imp' \<noteq> None" using fk by simp
  show ?thesis
    unfolding runnable_def sel using en tops colls finish_schema_model [OF f] by simp
qed

lemma Import_returns:
  assumes d: "fDestFile imp = Some destFile" and nk: "\<not> FindKey destFile (fNTupleName imp)"
    and t: "fSourceTree imp = Some tree"
    and p: "PrepareSchema e imp = (Success, imp1, evs0)"
  shows "fst (Import e imp) = Success"
proof -
  have st: "fSourceTree imp1 \<noteq> None"
    using PrepareSchema_settings [OF p] t by (auto simp: settings_def)
  from PrepareSchema_runnable [OF p] have "fst (write_entries e imp1) = Success"
    using write_entries_runnable st by blast
  then show ?thesis
    using d nk p by (auto simp: Import_def discard_def split: prod.splits)
qed

text \<open>
  C4: an \<open>Import\<close> that returns success has read the entries \<open>0, 1, ..., n - 1\<close> of the
  source tree in this order and no other, and has filled exactly \<open>n\<close> top-level records,
  where \<open>n\<close> is the minimum of the limit and the number of entries of the tree when the
  limit is not negative, and the number of entries of the tree when it is negative. And
  \<open>Import\<close> does return success whenever the destination has no key of the name of the
  ntuple and \<open>PrepareSchema\<close> succeeds.
\<close>

theorem Import_record_count:
  assumes "fSourceTree imp = Some tree"
  shows "(\<forall>imp' evs. Import e imp = (Success, imp', evs) \<longrightarrow>
            entries_read evs =
              [0..(if fMaxEntries imp \<ge> 0 then min (fMaxEntries imp) (tEntries tree) else tEntries tree) - 1] \<and>
            length (filter is_fill evs) =
              nat (if fMaxEntries imp \<ge> 0 then min (fMaxEntries imp) (tEntries tree) else tEntries tree)) \<and>
         (\<forall>destFile imp1 evs0.
            fDestFile imp = Some destFile \<longrightarrow> \<not> FindKey destFile (fNTupleName imp) \<longrightarrow>
            PrepareSchema e imp = (Success, imp1, evs0) \<longrightarrow> fst (Import e imp) = Success)"
proof (intro conjI allI impI)
  fix imp' evs
  assume "Import e imp = (Success, imp', evs)"
  from Import_count_of_success [OF this assms]
  show "entries_read evs =
          [0..(if fMaxEntries imp \<ge> 0 then min (fMaxEntries imp) (tEntries tree) else tEntries tree) - 1]"
    and "length (filter is_fill evs) =
          nat (if fMaxEntries imp \<ge> 0 then min (fMaxEntries imp) (tEntries tree) else tEntries tree)"
    by simp_all
next
  fix destFile imp1 evs0
  assume a: "fDestFile imp = Some destFile" "\<not> FindKey destFile (fNTupleName imp)"
    "PrepareSchema e imp = (Success, imp1, evs0)"
  show "fst (Import e imp) = Success"
    using Import_returns [OF a(1,2) assms a(3)] .
qed

text \<open>
  The import of \<open>tree_na\<close>, three entries, with the limit 2: the entries 0 and 1 are read
  and two records are filled.
\<close>

theorem Import_record_count_witness:
  "fSourceTree importer_limit2 = Some tree_na \<and>
   fDestFile importer_limit2 = Some file0 \<and>
   \<not> FindKey file0 (fNTupleName importer_limit2) \<and>
   fst (PrepareSchema env0 importer_limit2) = Success \<and>
   fMaxEntries importer_limit2 = 2 \<and> tEntries tree_na = 3 \<and>
   fst (Import env0 importer_limit2) = Success \<and>
   entries_read (snd (snd (Import env0 importer_limit2))) = [0, 1] \<and>
   length (filter is_fill (snd (snd (Import env0 importer_limit2)))) = 2"
proof -
  have t: "fSourceTree importer_limit2 = Some tree_na" "fMaxEntries importer_limit2 = 2"
      "tEntries tree_na = 3" "fDestFile importer_limit2 = Some file0"
      "\<not> FindKey file0 (fNTupleName importer_limit2)"
    by (simp_all add: importer_limit2_def importer_of_def tree_na_def file0_def FindKey_def
          RNTupleImporter0_def)
  have p: "fst (PrepareSchema env0 importer_limit2) = Success"
    by (simp add: prepare_defs schema_defs example_defs importer_limit2_def)
  then obtain imp1 evs0 where pp: "PrepareSchema env0 importer_limit2 = (Success, imp1, evs0)"
    by (rule status_triple)
  note th = Import_record_count [OF t(1), of env0]
  from th t(4,5) pp have s: "fst (Import env0 importer_limit2) = Success"
    by blast
  then obtain imp' evs where i: "Import env0 importer_limit2 = (Success, imp', evs)"
    by (rule status_triple)
  have u: "[0..(1::int)] = [0, 1]"
    by (simp add: upto_rec1)
  from th i have "entries_read evs = [0..(if fMaxEntries importer_limit2 \<ge> 0
        then min (fMaxEntries importer_limit2) (tEntries tree_na) else tEntries tree_na) - 1] \<and>
      length (filter is_fill evs) = nat (if fMaxEntries importer_limit2 \<ge> 0
        then min (fMaxEntries importer_limit2) (tEntries tree_na) else tEntries tree_na)"
    by blast
  then show ?thesis
    using s p i t u by simp
qed

end
